theory Spec2Isabelle
  imports Main
begin

section \<open>Version codes (app/inference_client/misc.py)\<close>

text \<open>
  Python strings are modelled as \<^typ>\<open>string\<close>; a \<^typ>\<open>char\<close> stands for a code point
  below 256. Exceptions are values of \<open>exn\<close>; a function that may raise returns
  \<open>exn + 'a\<close>, with \<open>Inl\<close> for the exception.
\<close>

datatype exn =
    ValueError string
  | FileNotFoundError string
  | OSError string
  | ReadError string

text \<open>\<open>except OSError\<close> also catches the subclass \<open>FileNotFoundError\<close>.\<close>

fun is_OSError :: "exn \<Rightarrow> bool" where
  "is_OSError (OSError m) = True"
| "is_OSError (FileNotFoundError m) = True"
| "is_OSError (ValueError m) = False"
| "is_OSError (ReadError m) = False"

subsection \<open>The built-ins the two parsers call\<close>

definition is_digit :: "char \<Rightarrow> bool" where
  "is_digit c = (let n = (of_char c :: nat) in 48 \<le> n \<and> n \<le> 57)"

definition digit_value :: "char \<Rightarrow> nat" where
  "digit_value c = of_char c - 48"

text \<open>
  The characters \<open>int()\<close> strips from both ends of its argument: tab, line feed,
  vertical tab, form feed, carriage return, space, and the two blanks above 127
  (next line, no-break space).
\<close>

definition is_space :: "char \<Rightarrow> bool" where
  "is_space c =
     (let n = (of_char c :: nat) in (9 \<le> n \<and> n \<le> 13) \<or> n = 32 \<or> n = 133 \<or> n = 160)"

definition dec_value :: "string \<Rightarrow> nat" where
  "dec_value ds = foldl (\<lambda>a c. 10 * a + digit_value c) 0 ds"

fun double_underscore :: "string \<Rightarrow> bool" where
  "double_underscore (a # b # cs) =
     ((a = CHR ''_'' \<and> b = CHR ''_'') \<or> double_underscore (b # cs))"
| "double_underscore cs = False"

text \<open>
  \<open>int(part)\<close> on a string, base ten: blanks around, one optional sign, then digits
  that single underscores may separate; anything else raises \<open>ValueError\<close>. So does
  a string with more digits than the interpreter converts in one call (4300, the
  default of \<open>sys.set_int_max_str_digits\<close>).
\<close>

definition max_str_digits :: nat where
  "max_str_digits = 4300"

definition py_int :: "string \<Rightarrow> exn + int" where
  "py_int s =
     (let s1 = dropWhile is_space s;
          neg = (s1 \<noteq> [] \<and> hd s1 = CHR ''-'');
          s2 = (if s1 \<noteq> [] \<and> (hd s1 = CHR ''+'' \<or> hd s1 = CHR ''-'') then tl s1 else s1);
          body = takeWhile (\<lambda>c. is_digit c \<or> c = CHR ''_'') s2;
          rest = dropWhile (\<lambda>c. is_digit c \<or> c = CHR ''_'') s2
      in if body = [] \<or> hd body = CHR ''_'' \<or> last body = CHR ''_''
            \<or> double_underscore body \<or> \<not> list_all is_space rest
            \<or> max_str_digits < length (filter is_digit body)
         then Inl (ValueError s)
         else Inr ((if neg then - 1 else 1) * int (dec_value (filter is_digit body))))"

text \<open>\<open>version.split(".")\<close>: the pieces between the dots, at least one piece.\<close>

fun split_from :: "string \<Rightarrow> string \<Rightarrow> string list" where
  "split_from cur [] = [cur]"
| "split_from cur (c # cs) =
     (if c = CHR ''.'' then cur # split_from [] cs else split_from (cur @ [c]) cs)"

definition str_split :: "string \<Rightarrow> string list" where
  "str_split s = split_from [] s"

text \<open>
  \<open>tuple(int(part) for part in parts)\<close>: the parts are converted from left to right
  and the first conversion that raises ends the evaluation.
\<close>

fun tuple_int :: "string list \<Rightarrow> exn + int list" where
  "tuple_int [] = Inr []"
| "tuple_int (p # ps) =
     (case py_int p of
        Inl e \<Rightarrow> Inl e
      | Inr n \<Rightarrow> (case tuple_int ps of Inl e \<Rightarrow> Inl e | Inr ns \<Rightarrow> Inr (n # ns)))"

text \<open>
  \<open>re.findall(r"\d+", revision)\<close>: the search skips to the next digit, the match takes
  that digit and every digit that follows it, and the search goes on behind the match.
\<close>

function findall_digits :: "string \<Rightarrow> string list" where
  "findall_digits s =
     (case dropWhile (\<lambda>c. \<not> is_digit c) s of
        [] \<Rightarrow> []
      | c # r \<Rightarrow> (c # takeWhile is_digit r) # findall_digits (dropWhile is_digit r))"
  by pat_completeness auto
termination
proof (relation "measure length")
  show "wf (measure length)" by simp
next
  fix s :: string and c r
  assume "dropWhile (\<lambda>c. \<not> is_digit c) s = c # r"
  then have "length (c # r) \<le> length s"
    by (metis length_dropWhile_le)
  moreover have "length (dropWhile is_digit r) \<le> length r"
    by (rule length_dropWhile_le)
  ultimately show "(dropWhile is_digit r, s) \<in> measure length"
    by simp
qed

declare findall_digits.simps [simp del]

subsection \<open>parse_version and parse_revision\<close>

definition parse_version :: "string \<Rightarrow> exn + int list" where
  "parse_version v =
     (let v' = (if v \<noteq> [] \<and> (hd v = CHR ''v'' \<or> hd v = CHR ''V'') then tl v else v)
      in tuple_int (str_split v'))"

definition parse_revision :: "string \<Rightarrow> exn + int list" where
  "parse_revision revision =
     (let numeric_parts = findall_digits revision
      in if numeric_parts = [] then Inr [0] else tuple_int numeric_parts)"

subsection \<open>What the specification says of the two parsers\<close>

text \<open>Joining pieces with dots: the inverse of splitting on the dot.\<close>

fun join_dots :: "string list \<Rightarrow> string" where
  "join_dots [] = []"
| "join_dots [g] = g"
| "join_dots (g # h # gs) = g @ CHR ''.'' # join_dots (h # gs)"

text \<open>
  A maximal run of digits starts at a digit that no digit precedes and takes every
  digit that follows; the runs are listed by their starting position.
\<close>

definition run_starts :: "string \<Rightarrow> nat list" where
  "run_starts s =
     filter (\<lambda>i. is_digit (s ! i) \<and> (i = 0 \<or> \<not> is_digit (s ! (i - 1)))) [0..<length s]"

definition maximal_digit_runs :: "string \<Rightarrow> string list" where
  "maximal_digit_runs s = map (\<lambda>i. takeWhile is_digit (drop i s)) (run_starts s)"

text \<open>
  The decimal value of a string of digits, by position: the digit at place \<open>i\<close> from
  the left of \<open>n\<close> digits counts \<open>10 ^ (n - 1 - i)\<close> times.
\<close>

definition decimal :: "string \<Rightarrow> nat" where
  "decimal ds = (\<Sum>i<length ds. digit_value (ds ! i) * 10 ^ (length ds - 1 - i))"

text \<open>
  Digits that single underscores may separate: the string is not empty, every character
  is a digit or an underscore, and every underscore stands between two digits.
\<close>

definition separated_digits :: "string \<Rightarrow> bool" where
  "separated_digits b \<longleftrightarrow>
     b \<noteq> [] \<and>
     (\<forall>i<length b.
        if b ! i = CHR ''_''
        then 0 < i \<and> Suc i < length b \<and> is_digit (b ! (i - 1)) \<and> is_digit (b ! Suc i)
        else is_digit (b ! i))"

text \<open>
  The strings that stand for an integer, with the integer: blanks, an optional sign,
  separated digits, no more than 4300 of them, blanks. The value is the decimal value
  of the digits, negated behind a minus sign.
\<close>

definition int_literal :: "string \<Rightarrow> int \<Rightarrow> bool" where
  "int_literal s n \<longleftrightarrow>
     (\<exists>pre sg b post.
        s = pre @ sg @ b @ post \<and> list_all is_space pre \<and> list_all is_space post
        \<and> (sg = [] \<or> sg = ''+'' \<or> sg = ''-'')
        \<and> separated_digits b \<and> length (filter is_digit b) \<le> 4300
        \<and> n = (if sg = ''-'' then - 1 else 1) * int (decimal (filter is_digit b)))"

section \<open>The CLI's life cycle (app/hypervisor/clivisor.py)\<close>

subsection \<open>Files, directories, links and text\<close>

text \<open>
  A path is the list of its components below the root. A state of the file system
  gives each path at most one node: a file with its content, a directory, or a symbolic
  link with the absolute path it points to. Each path names its own node; the parent of
  a path is looked at only by the two operations that make the directories above their
  target, \<open>mkdir(parents=True)\<close> and unpacking.
\<close>

type_synonym path = "string list"

datatype node = File string | Dir | Symlink path

type_synonym filesystem = "path \<Rightarrow> node option"

abbreviation LF :: char where "LF \<equiv> CHR 0x0A"
abbreviation CR :: char where "CR \<equiv> CHR 0x0D"
abbreviation DQ :: char where "DQ \<equiv> CHR 0x22"

definition str :: "path \<Rightarrow> string" where
  "str p = (if p = [] then ''/'' else concat (map (\<lambda>c. CHR ''/'' # c) p))"

text \<open>
  Opening a path, and asking whether it exists or what it is, follows the links found
  at it. \<open>follow k f p\<close> is the path reached from \<open>p\<close> through at most \<open>k\<close> links, a
  path that holds no link; there is none when more than \<open>k\<close> links come in a row. The
  system follows forty links and then fails with \<open>ELOOP\<close>.
\<close>

fun follow :: "nat \<Rightarrow> filesystem \<Rightarrow> path \<Rightarrow> path option" where
  "follow 0 f p = (case f p of Some (Symlink t) \<Rightarrow> None | _ \<Rightarrow> Some p)"
| "follow (Suc k) f p = (case f p of Some (Symlink t) \<Rightarrow> follow k f t | _ \<Rightarrow> Some p)"

definition follow_links :: "filesystem \<Rightarrow> path \<Rightarrow> path option" where
  "follow_links f p = follow 40 f p"

text \<open>
  \<open>os.path.exists\<close>, \<open>Path.exists\<close>, \<open>os.path.isdir\<close> and \<open>os.path.isfile\<close> are false
  for a link that leads nowhere and for a loop of links.
\<close>

definition path_exists :: "filesystem \<Rightarrow> path \<Rightarrow> bool" where
  "path_exists f p = (case follow_links f p of Some q \<Rightarrow> f q \<noteq> None | None \<Rightarrow> False)"

definition isdir :: "filesystem \<Rightarrow> path \<Rightarrow> bool" where
  "isdir f p = (case follow_links f p of Some q \<Rightarrow> f q = Some Dir | None \<Rightarrow> False)"

text \<open>The content of the regular file that a path leads to, if it leads to one.\<close>

definition file_content :: "filesystem \<Rightarrow> path \<Rightarrow> string option" where
  "file_content f p =
     (case follow_links f p of
        Some q \<Rightarrow> (case f q of Some (File c) \<Rightarrow> Some c | _ \<Rightarrow> None)
      | None \<Rightarrow> None)"

definition isfile :: "filesystem \<Rightarrow> path \<Rightarrow> bool" where
  "isfile f p = (file_content f p \<noteq> None)"

text \<open>
  Opening for writing creates the file or empties it, at the end of the links; a
  directory cannot be opened, and neither can a loop of links.
\<close>

definition write_file :: "filesystem \<Rightarrow> path \<Rightarrow> string \<Rightarrow> exn + filesystem" where
  "write_file f p c =
     (case follow_links f p of
        None \<Rightarrow> Inl (OSError (str p))
      | Some q \<Rightarrow> (case f q of
                    Some Dir \<Rightarrow> Inl (OSError (str p))
                  | _ \<Rightarrow> Inr (f(q \<mapsto> File c))))"

definition prefixes_of :: "path \<Rightarrow> path list" where
  "prefixes_of p = map (\<lambda>n. take n p) [1..<Suc (length p)]"

text \<open>
  \<open>Path.mkdir(parents=True, exist_ok=True)\<close>: the directory and every directory above
  it exist afterwards, the missing ones having been made; it raises when one of these
  paths holds something that is not a directory and does not lead to one.
\<close>

definition mkdir_parents :: "filesystem \<Rightarrow> path \<Rightarrow> exn + filesystem" where
  "mkdir_parents f p =
     (if list_ex (\<lambda>q. f q \<noteq> None \<and> \<not> isdir f q) (prefixes_of p)
      then Inl (OSError (str p))
      else Inr (\<lambda>q. if q \<in> set (prefixes_of p) \<and> f q = None then Some Dir else f q))"

text \<open>
  \<open>Path.chmod(mode)\<close> sets the permission bits of what the path leads to.
\<close>

definition chmod :: "filesystem \<Rightarrow> (path \<Rightarrow> nat option) \<Rightarrow> path \<Rightarrow> nat \<Rightarrow> exn + (path \<Rightarrow> nat option)" where
  "chmod f m p mode =
     (case follow_links f p of
        None \<Rightarrow> Inl (OSError (str p))
      | Some q \<Rightarrow> if f q = None then Inl (FileNotFoundError (str p)) else Inr (m(q \<mapsto> mode)))"

text \<open>
  \<open>str.splitlines()\<close> ends a line at a line feed, vertical tab, form feed, carriage
  return (with a line feed behind it, if there is one), file, group or record separator,
  or next-line character. Reading in text mode turns each carriage return, with the line
  feed behind it, into one line feed.
\<close>

definition is_linebreak :: "char \<Rightarrow> bool" where
  "is_linebreak c =
     (let n = (of_char c :: nat) in (10 \<le> n \<and> n \<le> 13) \<or> (28 \<le> n \<and> n \<le> 30) \<or> n = 133)"

fun lines_from :: "string \<Rightarrow> string \<Rightarrow> string list" where
  "lines_from cur [] = (if cur = [] then [] else [cur])"
| "lines_from cur [c] = (if is_linebreak c then [cur] else [cur @ [c]])"
| "lines_from cur (c # d # cs) =
     (if c = CR \<and> d = LF then cur # lines_from [] cs
      else if is_linebreak c then cur # lines_from [] (d # cs)
      else lines_from (cur @ [c]) (d # cs))"

definition splitlines :: "string \<Rightarrow> string list" where
  "splitlines s = lines_from [] s"

fun universal_newlines :: "string \<Rightarrow> string" where
  "universal_newlines [] = []"
| "universal_newlines [c] = [if c = CR then LF else c]"
| "universal_newlines (c # d # cs) =
     (if c = CR \<and> d = LF then LF # universal_newlines cs
      else if c = CR then LF # universal_newlines (d # cs)
      else c # universal_newlines (d # cs))"

subsection \<open>The environment and the state\<close>

datatype platform = MacOS | Linux | Other

record cli_entry =
  version :: string
  url :: string

text \<open>
  What \<open>urlretrieve\<close> does for a URL: it writes the whole body, or it raises, having
  written nothing or a part of the body.
\<close>

datatype fetch = Fetched string | Fetch_failed "string option" exn

text \<open>
  What \<open>tarfile\<close> reads from a downloaded body: the file members it can unpack, in
  order, and the error it raises behind them, if the body is not a sound archive.
\<close>

record archive =
  members :: "(path \<times> string) list"
  defect :: "exn option"

text \<open>
  The environment holds what the program does not decide: the platform, the two
  directories, the manifest's own refresh, and the outcome of each operation for whose
  failure the program has an exception handler (removing the old directory, fetching,
  unpacking, removing the archive, linking, reading and extending a profile file,
  starting a process). Where the outcome is given for a path, it is the error that the
  operation meets at this path for a reason the file system of the model does not show,
  such as missing permissions or bytes that cannot be decoded.
\<close>

record env =
  PLATFORM :: platform
  home :: path
  base_dir :: path
  manifest_update :: "cli_entry \<Rightarrow> exn + cli_entry"
  rmtree_raises :: "exn option"
  urlretrieve :: "string \<Rightarrow> fetch"
  tar_open :: "string \<Rightarrow> archive"
  remove_raises :: "path \<Rightarrow> exn option"
  symlink_raises :: "exn option"
  read_text_raises :: "path \<Rightarrow> exn option"
  open_append_raises :: "path \<Rightarrow> exn option"
  popen_raises :: "exn option"

text \<open>
  The state: the file system, the permission bits the program has set, the manifest's
  and the configuration's version fields, the downloads requested, the processes
  started, the retained process handle, and the messages logged as errors. Messages of
  lower levels and the text printed to the terminal are left out.
\<close>

record world =
  fs :: filesystem
  modes :: "path \<Rightarrow> nat option"
  current_cli :: cli_entry
  active_cli :: string
  fetched :: "string list"
  spawned :: "string list list"
  cli_process :: "string list option"
  errors :: "string list"

text \<open>A function that acts on the state returns its result, or the exception, with the state it leaves.\<close>

type_synonym 'a outcome = "(exn + 'a) \<times> world"

subsection \<open>Removing\<close>

text \<open>
  \<open>shutil.rmtree(d)\<close> refuses a symbolic link; when it succeeds, \<open>d\<close> and everything
  below it are gone.
\<close>

definition rmtree :: "env \<Rightarrow> filesystem \<Rightarrow> path \<Rightarrow> exn + filesystem" where
  "rmtree e f d =
     (case f d of
        None \<Rightarrow> Inl (FileNotFoundError (str d))
      | Some Dir \<Rightarrow>
          (case rmtree_raises e of
             Some x \<Rightarrow> Inl x
           | None \<Rightarrow> Inr (\<lambda>p. if take (length d) p = d then None else f p))
      | Some n \<Rightarrow> Inl (OSError (str d)))"

text \<open>
  \<open>os.remove(p)\<close> deletes a file, or a link and not what it points to; it raises when
  there is nothing at \<open>p\<close>, when \<open>p\<close> is a directory, and when the system refuses.
\<close>

definition os_remove :: "env \<Rightarrow> filesystem \<Rightarrow> path \<Rightarrow> exn + filesystem" where
  "os_remove e f p =
     (case f p of
        None \<Rightarrow> Inl (FileNotFoundError (str p))
      | Some Dir \<Rightarrow> Inl (OSError (str p))
      | Some n \<Rightarrow> (case remove_raises e p of
                     Some x \<Rightarrow> Inl x
                   | None \<Rightarrow> Inr (f(p := None))))"

subsection \<open>Fetching and unpacking\<close>

text \<open>\<open>download_file(url, out_path, logger)\<close> of misc.py.\<close>

definition download_file :: "env \<Rightarrow> string \<Rightarrow> path \<Rightarrow> world \<Rightarrow> unit outcome" where
  "download_file e u out_path w =
     (let w1 = w\<lparr>fetched := fetched w @ [u]\<rparr>
      in case urlretrieve e u of
           Fetch_failed None x \<Rightarrow> (Inl x, w1)
         | Fetch_failed (Some part) x \<Rightarrow>
             (case write_file (fs w1) out_path part of
                Inl x' \<Rightarrow> (Inl x', w1)
              | Inr f \<Rightarrow> (Inl x, w1\<lparr>fs := f\<rparr>))
         | Fetched body \<Rightarrow>
             (case write_file (fs w1) out_path body of
                Inl x' \<Rightarrow> (Inl x', w1)
              | Inr f \<Rightarrow> (Inr (), w1\<lparr>fs := f\<rparr>)))"

text \<open>Unpacking one member makes the directories above the target, then writes the file.\<close>

definition extract_member :: "filesystem \<Rightarrow> path \<Rightarrow> string \<Rightarrow> exn + filesystem" where
  "extract_member f target c =
     (case mkdir_parents f (butlast target) of
        Inl x \<Rightarrow> Inl x
      | Inr f1 \<Rightarrow> write_file f1 target c)"

text \<open>Members are unpacked in order; the first that raises ends the unpacking.\<close>

fun extract_members :: "filesystem \<Rightarrow> path \<Rightarrow> (path \<times> string) list \<Rightarrow> exn option \<times> filesystem" where
  "extract_members f base [] = (None, f)"
| "extract_members f base (m # ms) =
     (case extract_member f (base @ fst m) (snd m) of
        Inl x \<Rightarrow> (Some x, f)
      | Inr f1 \<Rightarrow> extract_members f1 base ms)"

text \<open>\<open>with tarfile.open(tar_path, "r:gz") as tar: tar.extractall(path=base)\<close>.\<close>

definition extractall :: "env \<Rightarrow> path \<Rightarrow> path \<Rightarrow> world \<Rightarrow> unit outcome" where
  "extractall e tar_path base w =
     (case file_content (fs w) tar_path of
        Some body \<Rightarrow>
          (let a = tar_open e body;
               r = extract_members (fs w) base (members a);
               w1 = w\<lparr>fs := snd r\<rparr>
           in case fst r of
                Some x \<Rightarrow> (Inl x, w1)
              | None \<Rightarrow> (case defect a of Some x \<Rightarrow> (Inl x, w1) | None \<Rightarrow> (Inr (), w1)))
      | None \<Rightarrow> (Inl (FileNotFoundError (str tar_path)), w))"

definition cli_dir :: "env \<Rightarrow> path" where
  "cli_dir e = base_dir e @ [''moondream_cli'']"

definition cli_path :: "env \<Rightarrow> path" where
  "cli_path e = base_dir e @ [''moondream_cli'', ''moondream-cli.py'']"

definition tar_path :: "env \<Rightarrow> path" where
  "tar_path e = base_dir e @ [''moondream_cli.tar.gz'']"

definition venv_path :: "env \<Rightarrow> path" where
  "venv_path e = base_dir e @ [''.venv'']"

text \<open>Lines 153 to 162: the old directory is removed; a failure to do so is logged.\<close>

definition remove_existing :: "env \<Rightarrow> world \<Rightarrow> world" where
  "remove_existing e w =
     (if isdir (fs w) (cli_dir e)
      then (case rmtree e (fs w) (cli_dir e) of
              Inl x \<Rightarrow> w\<lparr>errors := errors w @ [''Error removing existing moondream_cli directory'']\<rparr>
            | Inr f \<Rightarrow> w\<lparr>fs := f\<rparr>)
      else w)"

text \<open>Lines 167 to 177: the body of the \<open>try\<close> statement.\<close>

definition download_and_extract_body :: "env \<Rightarrow> string \<Rightarrow> world \<Rightarrow> bool outcome" where
  "download_and_extract_body e u w =
     (case download_file e u (tar_path e) w of
        (Inl x, w1) \<Rightarrow> (Inl x, w1)
      | (Inr _, w1) \<Rightarrow>
          (case extractall e (tar_path e) (base_dir e) w1 of
             (Inl x, w2) \<Rightarrow> (Inl x, w2)
           | (Inr _, w2) \<Rightarrow>
               (case os_remove e (fs w2) (tar_path e) of
                  Inl x \<Rightarrow> (Inl x, w2)
                | Inr f \<Rightarrow> (Inr (isfile f (cli_path e)), w2\<lparr>fs := f\<rparr>))))"

text \<open>
  \<open>CLIVisor._download_and_extract_cli(url)\<close>, with the handler of lines 178 to 182. The
  handler's own \<open>os.remove\<close> is outside every \<open>try\<close>: what it raises leaves the method.
\<close>

definition download_and_extract_cli :: "env \<Rightarrow> string \<Rightarrow> world \<Rightarrow> bool outcome" where
  "download_and_extract_cli e u w =
     (case download_and_extract_body e u (remove_existing e w) of
        (Inr b, w1) \<Rightarrow> (Inr b, w1)
      | (Inl x, w1) \<Rightarrow>
          (let w2 = w1\<lparr>errors := errors w1 @ [''Error downloading/extracting moondream_cli package'']\<rparr>
           in if path_exists (fs w2) (tar_path e)
              then (case os_remove e (fs w2) (tar_path e) of
                      Inl x' \<Rightarrow> (Inl x', w2)
                    | Inr f \<Rightarrow> (Inr False, w2\<lparr>fs := f\<rparr>))
              else (Inr False, w2)))"

subsection \<open>Installing the wrapper\<close>

definition path_line :: string where
  "path_line = ''export PATH='' @ [DQ] @ ''$HOME/.local/bin:$PATH'' @ [DQ]"

definition script :: "path \<Rightarrow> path \<Rightarrow> string" where
  "script venv_py cli_py =
     ''#!/usr/bin/env sh'' @ [LF] @
     ''exec '' @ [DQ] @ str venv_py @ [DQ] @ '' '' @ [DQ] @ str cli_py @ [DQ] @ '' ''
       @ [DQ] @ ''$@'' @ [DQ] @ [LF]"

definition path_files :: "env \<Rightarrow> path list" where
  "path_files e =
     (if PLATFORM e = MacOS
      then [home e @ [''.zprofile''], home e @ [''.zshrc''],
            home e @ [''.bash_profile''], home e @ [''.bashrc'']]
      else [home e @ [''.profile''], home e @ [''.bash_profile''],
            home e @ [''.zshrc''], home e @ [''.bashrc'']])"

text \<open>
  \<open>Path.symlink_to\<close> raises when the path of the link holds anything, a link that
  leads nowhere included.
\<close>

definition symlink_to :: "env \<Rightarrow> filesystem \<Rightarrow> path \<Rightarrow> path \<Rightarrow> exn + filesystem" where
  "symlink_to e f link target =
     (case symlink_raises e of
        Some x \<Rightarrow> Inl x
      | None \<Rightarrow> if f link \<noteq> None then Inl (OSError (str link))
                else Inr (f(link \<mapsto> Symlink target)))"

text \<open>Lines 232 to 239: the link below /usr/local/bin, on Linux; any failure is passed over.\<close>

definition link_usr_local :: "env \<Rightarrow> string \<Rightarrow> path \<Rightarrow> world \<Rightarrow> world" where
  "link_usr_local e cli_name wrapper w =
     (if PLATFORM e = Linux
      then (let usr_local = [''usr'', ''local'', ''bin'', cli_name]
            in if \<not> path_exists (fs w) usr_local
               then (case symlink_to e (fs w) usr_local wrapper of
                       Inl x \<Rightarrow> w
                     | Inr f \<Rightarrow> w\<lparr>fs := f\<rparr>)
               else w)
      else w)"

text \<open>
  \<open>Path.read_text()\<close> reads the file the path leads to, in text mode; \<open>Path.open("a")\<close>
  with the two writes extends that file, and makes it when the path, or the link found
  at it, leads to nothing.
\<close>

definition read_text :: "env \<Rightarrow> filesystem \<Rightarrow> path \<Rightarrow> exn + string" where
  "read_text e f p =
     (case read_text_raises e p of
        Some x \<Rightarrow> Inl x
      | None \<Rightarrow> (case file_content f p of
                   Some c \<Rightarrow> Inr (universal_newlines c)
                 | None \<Rightarrow> Inl (OSError (str p))))"

definition open_append :: "env \<Rightarrow> filesystem \<Rightarrow> path \<Rightarrow> string \<Rightarrow> exn + filesystem" where
  "open_append e f p text =
     (case open_append_raises e p of
        Some x \<Rightarrow> Inl x
      | None \<Rightarrow> (case follow_links f p of
                   None \<Rightarrow> Inl (OSError (str p))
                 | Some q \<Rightarrow> (case f q of
                               None \<Rightarrow> Inr (f(q \<mapsto> File text))
                             | Some (File c) \<Rightarrow> Inr (f(q \<mapsto> File (c @ text)))
                             | Some n \<Rightarrow> Inl (OSError (str p)))))"

text \<open>Lines 259 to 272: the body of the \<open>try\<close> statement for one profile file.\<close>

definition profile_body :: "env \<Rightarrow> path \<Rightarrow> world \<Rightarrow> unit outcome" where
  "profile_body e rc w =
     (case (if path_exists (fs w) rc
            then (case read_text e (fs w) rc of Inl x \<Rightarrow> Inl x | Inr t \<Rightarrow> Inr (splitlines t))
            else Inr [])
      of Inl x \<Rightarrow> (Inl x, w)
       | Inr lines \<Rightarrow>
           if path_line \<notin> set lines
           then (case open_append e (fs w) rc
                        ((if lines \<noteq> [] then [LF] else []) @ path_line @ [LF]) of
                   Inl x \<Rightarrow> (Inl x, w)
                 | Inr f \<Rightarrow> (Inr (), w\<lparr>fs := f\<rparr>))
           else (Inr (), w))"

text \<open>The handler of lines 273 and 274 catches \<open>OSError\<close> and nothing else.\<close>

definition profile_update :: "env \<Rightarrow> path \<Rightarrow> world \<Rightarrow> unit outcome" where
  "profile_update e rc w =
     (case profile_body e rc w of
        (Inl x, w1) \<Rightarrow>
          if is_OSError x then (Inr (), w1\<lparr>errors := errors w1 @ [''Could not update '' @ str rc]\<rparr>)
          else (Inl x, w1)
      | (Inr u, w1) \<Rightarrow> (Inr u, w1))"

text \<open>Lines 257 to 274: the loop over the profile files.\<close>

fun update_profiles :: "env \<Rightarrow> path list \<Rightarrow> world \<Rightarrow> unit outcome" where
  "update_profiles e [] w = (Inr (), w)"
| "update_profiles e (rc # rcs) w =
     (case profile_update e rc w of
        (Inl x, w1) \<Rightarrow> (Inl x, w1)
      | (Inr _, w1) \<Rightarrow> update_profiles e rcs w1)"

text \<open>
  Lines 204 to 239 of \<open>install_moondream_cli\<close>: the two checks, the directory, the
  wrapper with its permission bits, and the link. The two paths are absolute and free
  of links, so that \<open>expanduser().resolve()\<close> returns them as they are.
\<close>

definition install_wrapper :: "env \<Rightarrow> path \<Rightarrow> path \<Rightarrow> string \<Rightarrow> world \<Rightarrow> path outcome" where
  "install_wrapper e cli_py_path venv cli_name w =
     (let cli_py = cli_py_path;
          venv_py = venv @ [''bin'', ''python'']
      in if \<not> path_exists (fs w) cli_py
         then (Inl (FileNotFoundError (''CLI file not found: '' @ str cli_py)), w)
         else if \<not> path_exists (fs w) venv_py
         then (Inl (FileNotFoundError (''Python interpreter not found: '' @ str venv_py)), w)
         else
           (let bin_dir = home e @ [''.local'', ''bin''];
                wrapper = bin_dir @ [cli_name]
            in case mkdir_parents (fs w) bin_dir of
                 Inl x \<Rightarrow> (Inl x, w)
               | Inr f1 \<Rightarrow>
                   (case write_file f1 wrapper (script venv_py cli_py) of
                      Inl x \<Rightarrow> (Inl x, w\<lparr>fs := f1\<rparr>)
                    | Inr f2 \<Rightarrow>
                        (case chmod f2 (modes w) wrapper 493 of
                           Inl x \<Rightarrow> (Inl x, w\<lparr>fs := f2\<rparr>)
                         | Inr m \<Rightarrow>
                             (Inr wrapper,
                              link_usr_local e cli_name wrapper (w\<lparr>fs := f2, modes := m\<rparr>))))))"

text \<open>
  \<open>install_moondream_cli(cli_py_path, venv_path, cli_name)\<close>: the lines above, then
  the loop over the profile files.
\<close>

definition install_moondream_cli :: "env \<Rightarrow> path \<Rightarrow> path \<Rightarrow> string \<Rightarrow> world \<Rightarrow> path outcome" where
  "install_moondream_cli e cli_py_path venv cli_name w =
     (case install_wrapper e cli_py_path venv cli_name w of
        (Inl x, w1) \<Rightarrow> (Inl x, w1)
      | (Inr wrapper, w3) \<Rightarrow>
          (case update_profiles e (path_files e) w3 of
             (Inl x, w4) \<Rightarrow> (Inl x, w4)
           | (Inr _, w4) \<Rightarrow> (Inr wrapper, w4)))"

subsection \<open>Launching, checking, updating, booting\<close>

definition applescript :: string where
  "applescript =
     [LF] @ ''        tell application '' @ [DQ] @ ''Terminal'' @ [DQ] @ [LF] @
     ''            do script '' @ [DQ] @ ''moondream'' @ [DQ] @ [LF] @
     ''        end tell'' @ [LF] @ ''        ''"

definition launch_cli_mac :: "env \<Rightarrow> world \<Rightarrow> unit outcome" where
  "launch_cli_mac e w =
     (case popen_raises e of
        Some x \<Rightarrow> (Inl x, w)
      | None \<Rightarrow> (Inr (), w\<lparr>spawned := spawned w @ [[''osascript'', ''-e'', applescript]]\<rparr>))"

definition launch_cli_ubuntu :: "env \<Rightarrow> path \<Rightarrow> path \<Rightarrow> world \<Rightarrow> unit outcome" where
  "launch_cli_ubuntu e venv cli_py_path w =
     (let cli_py = cli_py_path;
          venv_py = venv @ [''bin'', ''python''];
          argv = [str venv_py, str cli_py, ''--repl'', ''--station'']
      in case popen_raises e of
           Some x \<Rightarrow> (Inl x, w)
         | None \<Rightarrow> (Inr (), w\<lparr>spawned := spawned w @ [argv], cli_process := Some argv\<rparr>))"

text \<open>Lines 52 to 62: the body of the \<open>try\<close> statement of \<open>boot\<close>.\<close>

definition launch :: "env \<Rightarrow> world \<Rightarrow> unit outcome" where
  "launch e w =
     (case PLATFORM e of
        MacOS \<Rightarrow> launch_cli_mac e w
      | Linux \<Rightarrow> launch_cli_ubuntu e (venv_path e) (cli_path e) w
      | Other \<Rightarrow>
          (Inl (ValueError
             ''Moondream-cli only supports macOS and Ubuntu, therefore it cannot be launched on other''),
           w))"

record update_status =
  ood :: bool
  status_version :: string

definition check_for_update :: "env \<Rightarrow> bool \<Rightarrow> world \<Rightarrow> update_status outcome" where
  "check_for_update e update_manifest w =
     (case (if update_manifest then manifest_update e (current_cli w) else Inr (current_cli w)) of
        Inl x \<Rightarrow> (Inl x, w)
      | Inr m \<Rightarrow>
          (let w1 = w\<lparr>current_cli := m\<rparr>;
               ret_value = \<lparr>ood = False, status_version = version (current_cli w1)\<rparr>
           in if active_cli w1 \<noteq> version (current_cli w1)
              then (Inr (ret_value\<lparr>ood := True\<rparr>), w1)
              else (Inr ret_value, w1)))"

definition update :: "env \<Rightarrow> world \<Rightarrow> unit outcome" where
  "update e w =
     (case check_for_update e True w of
        (Inl x, w1) \<Rightarrow> (Inl x, w1)
      | (Inr update_status, w1) \<Rightarrow>
          if \<not> ood update_status then (Inr (), w1)
          else (case download_and_extract_cli e (url (current_cli w1)) w1 of
                  (Inl x, w2) \<Rightarrow> (Inl x, w2)
                | (Inr _, w2) \<Rightarrow>
                    (case install_moondream_cli e (cli_path e) (venv_path e) ''moondream'' w2 of
                       (Inl x, w3) \<Rightarrow> (Inl x, w3)
                     | (Inr _, w3) \<Rightarrow> (Inr (), w3))))"

text \<open>Lines 36 to 47 of \<open>boot\<close>: what comes before the launch.\<close>

definition boot_install :: "env \<Rightarrow> world \<Rightarrow> path outcome" where
  "boot_install e w =
     (if \<not> path_exists (fs w) (cli_path e)
      then (case download_and_extract_cli e (url (current_cli w)) w of
              (Inl x, w1) \<Rightarrow> (Inl x, w1)
            | (Inr _, w1) \<Rightarrow>
                (case install_moondream_cli e (cli_path e) (venv_path e) ''moondream'' w1 of
                   (Inl x, w2) \<Rightarrow> (Inl x, w2)
                 | (Inr _, w2) \<Rightarrow>
                     install_moondream_cli e (cli_path e) (venv_path e) ''moondream'' w2))
      else install_moondream_cli e (cli_path e) (venv_path e) ''moondream'' w)"

definition boot :: "env \<Rightarrow> world \<Rightarrow> unit outcome" where
  "boot e w =
     (case boot_install e w of
        (Inl x, w1) \<Rightarrow> (Inl x, w1)
      | (Inr _, w1) \<Rightarrow>
          (case launch e w1 of
             (Inl x, w2) \<Rightarrow>
               (Inr (), w2\<lparr>errors := errors w2 @ [''Failed to launch CLI in new window'']\<rparr>)
           | (Inr _, w2) \<Rightarrow> (Inr (), w2)))"

subsection \<open>The ordering the specification names\<close>

text \<open>Python compares two tuples of integers lexicographically, a proper prefix first.\<close>

fun tuple_less :: "int list \<Rightarrow> int list \<Rightarrow> bool" where
  "tuple_less [] [] = False"
| "tuple_less [] (y # ys) = True"
| "tuple_less (x # xs) [] = False"
| "tuple_less (x # xs) (y # ys) = (x < y \<or> (x = y \<and> tuple_less xs ys))"

definition version_before :: "string \<Rightarrow> string \<Rightarrow> exn + bool" where
  "version_before a b =
     (case parse_version a of
        Inl x \<Rightarrow> Inl x
      | Inr ta \<Rightarrow> (case parse_version b of Inl x \<Rightarrow> Inl x | Inr tb \<Rightarrow> Inr (tuple_less ta tb)))"

subsection \<open>The outcomes the specification names\<close>

text \<open>
  The download has succeeded when \<open>download_file\<close>, called on the state that the removal
  of the old directory leaves, returns; the extraction has succeeded when unpacking,
  called on the state the download leaves, returns.
\<close>

definition download_ok :: "env \<Rightarrow> string \<Rightarrow> world \<Rightarrow> bool" where
  "download_ok e u w = (fst (download_file e u (tar_path e) (remove_existing e w)) = Inr ())"

definition extraction_ok :: "env \<Rightarrow> string \<Rightarrow> world \<Rightarrow> bool" where
  "extraction_ok e u w =
     (fst (extractall e (tar_path e) (base_dir e)
             (snd (download_file e u (tar_path e) (remove_existing e w)))) = Inr ())"

subsection \<open>What the wrapper installation does to a profile file\<close>

text \<open>The lines the program sees in a profile file with content \<open>c\<close>.\<close>

definition profile_lines :: "string \<Rightarrow> string list" where
  "profile_lines c = splitlines (universal_newlines c)"

text \<open>
  The content of a profile file after the installation, from its content \<open>c\<close> before: a
  content that has the line among its lines stays as it is; to any other the line is
  appended, behind a line feed if there are lines already.
\<close>

definition with_path_line :: "string \<Rightarrow> string" where
  "with_path_line c =
     (if path_line \<in> set (profile_lines c) then c
      else c @ (if profile_lines c \<noteq> [] then [LF] else []) @ path_line @ [LF])"

text \<open>
  The node a profile file leads to, after a pass of the loop that extends it: nothing
  becomes a file that holds the line, a file gets the content above, a directory
  cannot be extended and stays. Such a node is never a link.
\<close>

definition after_profile :: "node option \<Rightarrow> node option" where
  "after_profile n =
     (case n of
        None \<Rightarrow> Some (File (with_path_line []))
      | Some (File c) \<Rightarrow> Some (File (with_path_line c))
      | Some d \<Rightarrow> Some d)"

text \<open>The profile file \<open>rc\<close> can be read and extended: the system refuses neither.\<close>

definition accessible :: "env \<Rightarrow> path \<Rightarrow> bool" where
  "accessible e rc = (read_text_raises e rc = None \<and> open_append_raises e rc = None)"

text \<open>
  Every error that reading or extending a profile file meets is an \<open>OSError\<close>, the
  kind that the loop catches.
\<close>

definition only_os_errors :: "env \<Rightarrow> bool" where
  "only_os_errors e =
     (list_all (\<lambda>rc. (case read_text_raises e rc of Some x \<Rightarrow> is_OSError x | None \<Rightarrow> True)
                   \<and> (case open_append_raises e rc of Some x \<Rightarrow> is_OSError x | None \<Rightarrow> True))
        (path_files e))"

text \<open>The names of the profile files, over both lists.\<close>

definition profile_names :: "string list" where
  "profile_names = [''.zprofile'', ''.zshrc'', ''.bash_profile'', ''.bashrc'', ''.profile'']"

subsection \<open>A concrete installation, for the examples\<close>

definition release_1_1 :: cli_entry where
  "release_1_1 = \<lparr>version = ''1.1.0'', url = ''https://example.org/cli-1.1.0.tar.gz''\<rparr>"

definition release_1_0 :: cli_entry where
  "release_1_0 = \<lparr>version = ''1.0.0'', url = ''https://example.org/cli-1.0.0.tar.gz''\<rparr>"

definition sound_archive :: archive where
  "sound_archive =
     \<lparr>members = [([''moondream_cli'', ''moondream-cli.py''], ''print(1)'')], defect = None\<rparr>"

definition linux_env :: env where
  "linux_env =
     \<lparr>PLATFORM = Linux, home = [''home'', ''u''], base_dir = [''opt'', ''station''],
      manifest_update = (\<lambda>m. Inr release_1_1),
      rmtree_raises = None,
      urlretrieve = (\<lambda>u. Fetched ''tarball''),
      tar_open = (\<lambda>b. sound_archive),
      remove_raises = (\<lambda>p. None),
      symlink_raises = None,
      read_text_raises = (\<lambda>p. None),
      open_append_raises = (\<lambda>p. None),
      popen_raises = None\<rparr>"

text \<open>A fresh machine: the interpreter is there, the CLI and the profile files are not.\<close>

definition fresh_fs :: filesystem where
  "fresh_fs =
     (\<lambda>p. if p = [''opt'', ''station'', ''.venv'', ''bin'', ''python''] then Some (File ''ELF'')
          else if p = [''opt'', ''station''] \<or> p = [''home'', ''u''] then Some Dir
          else None)"

definition fresh_world :: world where
  "fresh_world =
     \<lparr>fs = fresh_fs, modes = (\<lambda>p. None), current_cli = release_1_0, active_cli = ''1.0.0'',
      fetched = [], spawned = [], cli_process = None, errors = []\<rparr>"

text \<open>The same machine with the CLI unpacked.\<close>

definition installed_world :: world where
  "installed_world =
     fresh_world\<lparr>fs := fresh_fs([''opt'', ''station'', ''moondream_cli''] \<mapsto> Dir,
        [''opt'', ''station'', ''moondream_cli'', ''moondream-cli.py''] \<mapsto> File ''print(1)'')\<rparr>"


text \<open>The installed machine with a \<open>.bashrc\<close> that does not end in a line feed.\<close>

definition configured_world :: world where
  "configured_world =
     installed_world\<lparr>fs := (fs installed_world)([''home'', ''u'', ''.bashrc''] \<mapsto> File ''alias ll=ls'')\<rparr>"

text \<open>
  The installed machine with a \<open>.bashrc\<close> that is a link into a directory of
  configuration files, and a \<open>.zshrc\<close> that cannot be read.
\<close>

definition linked_world :: world where
  "linked_world =
     installed_world\<lparr>fs := (fs installed_world)
        ([''home'', ''u'', ''.bashrc''] \<mapsto> Symlink [''home'', ''u'', ''dotfiles'', ''bashrc''],
         [''home'', ''u'', ''dotfiles'', ''bashrc''] \<mapsto> File ''alias ll=ls'',
         [''home'', ''u'', ''.zshrc''] \<mapsto> File ''setopt'')\<rparr>"

definition guarded_env :: env where
  "guarded_env =
     linux_env\<lparr>read_text_raises :=
       (\<lambda>p. if p = [''home'', ''u'', ''.zshrc''] then Some (OSError ''permission denied'') else None)\<rparr>"

text \<open>
  A download that ends early: the archive yields the entry point, then the error for
  the missing end.
\<close>

definition truncated_archive :: archive where
  "truncated_archive =
     \<lparr>members = [([''moondream_cli'', ''moondream-cli.py''], ''print(1)'')],
      defect = Some (ReadError ''unexpected end of data'')\<rparr>"

definition truncating_env :: env where
  "truncating_env = linux_env\<lparr>tar_open := (\<lambda>b. truncated_archive)\<rparr>"

text \<open>A machine on which the system refuses to remove the archive.\<close>

definition refusing_env :: env where
  "refusing_env =
     linux_env\<lparr>remove_raises :=
       (\<lambda>p. if p = [''opt'', ''station'', ''moondream_cli.tar.gz'']
            then Some (OSError ''operation not permitted'') else None)\<rparr>"



subsection \<open>An auxiliary scanner\<close>

text \<open>
  The runs of digits once more, by a single pass that remembers whether the character
  before the current one is a digit. It links the search of \<open>findall_digits\<close> to the
  positions of \<open>run_starts\<close> in the proofs below.
\<close>

fun runs_aux :: "bool \<Rightarrow> string \<Rightarrow> string list" where
  "runs_aux p [] = []"
| "runs_aux p (c # cs) =
     (if is_digit c \<and> \<not> p then takeWhile is_digit (c # cs) # runs_aux True cs
      else runs_aux (is_digit c) cs)"

text \<open>
  \<open>keeps f g\<close>: what is a directory or a link in \<open>f\<close> is the same in \<open>g\<close>, and what is a
  file in \<open>f\<close> is a file in \<open>g\<close>. Every operation of the program but the two that remove
  leaves the file system in this relation to the one it found.
\<close>

definition keeps :: "filesystem \<Rightarrow> filesystem \<Rightarrow> bool" where
  "keeps f g =
     (\<forall>p. case f p of
             None \<Rightarrow> True
           | Some (File c) \<Rightarrow> (\<exists>c'. g p = Some (File c'))
           | Some n \<Rightarrow> g p = Some n)"

section \<open>Properties of the version codes\<close>

lemma dec_value_snoc: "dec_value (ds @ [d]) = 10 * dec_value ds + digit_value d"
  by (simp add: dec_value_def)

lemma decimal_snoc: "decimal (ds @ [d]) = 10 * decimal ds + digit_value d"
proof -
  have "(\<Sum>i<length ds. digit_value ((ds @ [d]) ! i) * 10 ^ (length (ds @ [d]) - 1 - i))
      = (\<Sum>i<length ds. 10 * (digit_value (ds ! i) * 10 ^ (length ds - 1 - i)))"
  proof (rule sum.cong)
    fix i assume "i \<in> {..<length ds}"
    then have i: "i < length ds" by simp
    then have "length (ds @ [d]) - 1 - i = Suc (length ds - 1 - i)" by simp
    with i show "digit_value ((ds @ [d]) ! i) * 10 ^ (length (ds @ [d]) - 1 - i)
        = 10 * (digit_value (ds ! i) * 10 ^ (length ds - 1 - i))"
      by (simp add: nth_append)
  qed simp
  then show ?thesis
    by (simp add: decimal_def sum_distrib_left)
qed

lemma dec_value_decimal: "dec_value ds = decimal ds"
proof (induction ds rule: rev_induct)
  case Nil
  show ?case by (simp add: dec_value_def decimal_def)
next
  case (snoc d ds)
  then show ?case by (simp only: dec_value_snoc decimal_snoc)
qed

lemma double_underscore_iff:
  "double_underscore b \<longleftrightarrow> (\<exists>i. Suc i < length b \<and> b ! i = CHR ''_'' \<and> b ! Suc i = CHR ''_'')"
proof (induction b rule: double_underscore.induct)
  case (1 a c cs)
  show ?case
  proof
    assume "double_underscore (a # c # cs)"
    then consider "a = CHR ''_'' \<and> c = CHR ''_''" | "double_underscore (c # cs)" by auto
    then show "\<exists>i. Suc i < length (a # c # cs) \<and> (a # c # cs) ! i = CHR ''_''
        \<and> (a # c # cs) ! Suc i = CHR ''_''"
    proof cases
      case 1
      then have "Suc 0 < length (a # c # cs) \<and> (a # c # cs) ! 0 = CHR ''_''
          \<and> (a # c # cs) ! Suc 0 = CHR ''_''" by simp
      then show ?thesis by blast
    next
      case 2
      with "1.IH" obtain j where "Suc j < length (c # cs)" "(c # cs) ! j = CHR ''_''"
        "(c # cs) ! Suc j = CHR ''_''" by blast
      then have "Suc (Suc j) < length (a # c # cs) \<and> (a # c # cs) ! Suc j = CHR ''_''
          \<and> (a # c # cs) ! Suc (Suc j) = CHR ''_''" by simp
      then show ?thesis by blast
    qed
  next
    assume "\<exists>i. Suc i < length (a # c # cs) \<and> (a # c # cs) ! i = CHR ''_''
        \<and> (a # c # cs) ! Suc i = CHR ''_''"
    then obtain i where i: "Suc i < length (a # c # cs)" "(a # c # cs) ! i = CHR ''_''"
      "(a # c # cs) ! Suc i = CHR ''_''" by blast
    show "double_underscore (a # c # cs)"
    proof (cases i)
      case 0
      with i show ?thesis by simp
    next
      case (Suc j)
      with i have "Suc j < length (c # cs) \<and> (c # cs) ! j = CHR ''_'' \<and> (c # cs) ! Suc j = CHR ''_''"
        by simp
      with "1.IH" have "double_underscore (c # cs)" by blast
      then show ?thesis by simp
    qed
  qed
qed simp_all

lemma is_digit_facts:
  "is_digit c \<Longrightarrow> \<not> is_space c \<and> c \<noteq> CHR ''+'' \<and> c \<noteq> CHR ''-'' \<and> c \<noteq> CHR ''_''"
  by (auto simp: is_digit_def is_space_def Let_def)

lemma is_space_facts:
  "is_space c \<Longrightarrow> \<not> is_digit c \<and> c \<noteq> CHR ''+'' \<and> c \<noteq> CHR ''-'' \<and> c \<noteq> CHR ''_''"
  by (auto simp: is_digit_def is_space_def Let_def)

lemma separated_digits_chars:
  assumes "separated_digits b" and "c \<in> set b"
  shows "is_digit c \<or> c = CHR ''_''"
proof -
  from assms(2) obtain i where i: "i < length b" "b ! i = c"
    by (auto simp: in_set_conv_nth)
  with assms(1) show ?thesis
    unfolding separated_digits_def by (metis (full_types))
qed

lemma separated_digits_iff:
  assumes chars: "\<forall>c\<in>set b. is_digit c \<or> c = CHR ''_''"
  shows "separated_digits b \<longleftrightarrow>
     b \<noteq> [] \<and> hd b \<noteq> CHR ''_'' \<and> last b \<noteq> CHR ''_'' \<and> \<not> double_underscore b"
proof
  assume s: "separated_digits b"
  then have ne: "b \<noteq> []" by (simp add: separated_digits_def)
  have at: "0 < i \<and> Suc i < length b \<and> is_digit (b ! (i - 1)) \<and> is_digit (b ! Suc i)"
    if "i < length b" "b ! i = CHR ''_''" for i
    using s that unfolding separated_digits_def by (metis (full_types))
  have "hd b \<noteq> CHR ''_''"
  proof
    assume "hd b = CHR ''_''"
    with ne have "b ! 0 = CHR ''_''" by (simp add: hd_conv_nth)
    with at [of 0] ne show False by simp
  qed
  moreover have "last b \<noteq> CHR ''_''"
  proof
    assume "last b = CHR ''_''"
    with ne have "b ! (length b - 1) = CHR ''_''" by (simp add: last_conv_nth)
    with at [of "length b - 1"] ne show False by simp
  qed
  moreover have "\<not> double_underscore b"
  proof
    assume "double_underscore b"
    then obtain i where i: "Suc i < length b" "b ! i = CHR ''_''" "b ! Suc i = CHR ''_''"
      by (auto simp: double_underscore_iff)
    with at [of i] have "is_digit (b ! Suc i)" by simp
    with i(3) is_digit_facts show False by metis
  qed
  ultimately show "b \<noteq> [] \<and> hd b \<noteq> CHR ''_'' \<and> last b \<noteq> CHR ''_'' \<and> \<not> double_underscore b"
    using ne by simp
next
  assume a: "b \<noteq> [] \<and> hd b \<noteq> CHR ''_'' \<and> last b \<noteq> CHR ''_'' \<and> \<not> double_underscore b"
  then have ne: "b \<noteq> []" and h0: "b ! 0 \<noteq> CHR ''_''" and l0: "b ! (length b - 1) \<noteq> CHR ''_''"
    by (auto simp: hd_conv_nth last_conv_nth)
  have dig: "is_digit (b ! i)" if "i < length b" "b ! i \<noteq> CHR ''_''" for i
    using chars that by (metis nth_mem)
  have "0 < i \<and> Suc i < length b \<and> is_digit (b ! (i - 1)) \<and> is_digit (b ! Suc i)"
    if i: "i < length b" "b ! i = CHR ''_''" for i
  proof -
    have i0: "0 < i"
    proof (rule ccontr)
      assume "\<not> 0 < i"
      with i h0 show False by simp
    qed
    have il: "Suc i < length b"
    proof (rule ccontr)
      assume "\<not> Suc i < length b"
      with i(1) have "i = length b - 1" by simp
      with i l0 show False by simp
    qed
    have "b ! (i - 1) \<noteq> CHR ''_''"
    proof
      assume "b ! (i - 1) = CHR ''_''"
      with i i0 have "Suc (i - 1) < length b \<and> b ! (i - 1) = CHR ''_'' \<and> b ! Suc (i - 1) = CHR ''_''"
        by simp
      with a show False by (auto simp: double_underscore_iff)
    qed
    moreover have "b ! Suc i \<noteq> CHR ''_''"
    proof
      assume "b ! Suc i = CHR ''_''"
      with i il a show False by (auto simp: double_underscore_iff)
    qed
    ultimately show ?thesis
      using i0 il dig [of "i - 1"] dig [of "Suc i"] i(1) by simp
  qed
  with dig a show "separated_digits b"
    unfolding separated_digits_def by auto
qed

lemma list_all_space_takeWhile:
  "list_all is_space post \<Longrightarrow> takeWhile (\<lambda>c. is_digit c \<or> c = CHR ''_'') post = []"
  using is_space_facts by (cases post) auto

lemma list_all_space_dropWhile:
  "list_all is_space post \<Longrightarrow> dropWhile (\<lambda>c. is_digit c \<or> c = CHR ''_'') post = post"
  using is_space_facts by (cases post) auto

lemma py_int_body:
  assumes b: "separated_digits b" and post: "list_all is_space post"
  shows "takeWhile (\<lambda>c. is_digit c \<or> c = CHR ''_'') (b @ post) = b"
    and "dropWhile (\<lambda>c. is_digit c \<or> c = CHR ''_'') (b @ post) = post"
proof -
  have all: "\<forall>c\<in>set b. is_digit c \<or> c = CHR ''_''"
    using separated_digits_chars [OF b] by blast
  then show "takeWhile (\<lambda>c. is_digit c \<or> c = CHR ''_'') (b @ post) = b"
    using list_all_space_takeWhile [OF post] by (simp add: takeWhile_append2)
  from all show "dropWhile (\<lambda>c. is_digit c \<or> c = CHR ''_'') (b @ post) = post"
    using list_all_space_dropWhile [OF post] by (simp add: dropWhile_append2)
qed

lemma separated_digits_hd:
  assumes "separated_digits b"
  shows "b \<noteq> []" and "is_digit (hd b)"
proof -
  show ne: "b \<noteq> []" using assms by (simp add: separated_digits_def)
  have chars: "\<forall>c\<in>set b. is_digit c \<or> c = CHR ''_''"
    using separated_digits_chars [OF assms] by blast
  from assms have "hd b \<noteq> CHR ''_''"
    by (simp add: separated_digits_iff [OF chars])
  moreover from ne have "hd b \<in> set b" by simp
  ultimately show "is_digit (hd b)" using chars by blast
qed

lemma py_int_tail:
  assumes b: "separated_digits b" and post: "list_all is_space post"
  shows "py_int (b @ post) =
    (if max_str_digits < length (filter is_digit b) then Inl (ValueError (b @ post))
     else Inr (int (dec_value (filter is_digit b))))"
proof -
  have chars: "\<forall>c\<in>set b. is_digit c \<or> c = CHR ''_''"
    using separated_digits_chars [OF b] by blast
  from separated_digits_hd [OF b] obtain c r where cr: "b = c # r" and c: "is_digit c"
    by (cases b) auto
  have s1: "dropWhile is_space (b @ post) = b @ post"
    using cr c is_digit_facts by simp
  have s2: "(if b @ post \<noteq> [] \<and> (hd (b @ post) = CHR ''+'' \<or> hd (b @ post) = CHR ''-'')
             then tl (b @ post) else b @ post) = b @ post"
    using cr c is_digit_facts by simp
  have neg: "\<not> (b @ post \<noteq> [] \<and> hd (b @ post) = CHR ''-'')"
    using cr c is_digit_facts by simp
  have cond: "b \<noteq> [] \<and> hd b \<noteq> CHR ''_'' \<and> last b \<noteq> CHR ''_'' \<and> \<not> double_underscore b"
    using b by (simp add: separated_digits_iff [OF chars])
  show ?thesis
    unfolding py_int_def Let_def s1 s2 py_int_body [OF b post]
    using neg cond post by simp
qed

lemma py_int_signed:
  assumes b: "separated_digits b" and post: "list_all is_space post"
    and sg: "sg = CHR ''+'' \<or> sg = CHR ''-''"
  shows "py_int (sg # b @ post) =
    (if max_str_digits < length (filter is_digit b) then Inl (ValueError (sg # b @ post))
     else Inr ((if sg = CHR ''-'' then - 1 else 1) * int (dec_value (filter is_digit b))))"
proof -
  have chars: "\<forall>c\<in>set b. is_digit c \<or> c = CHR ''_''"
    using separated_digits_chars [OF b] by blast
  have nsp: "\<not> is_space sg"
    using sg by (auto simp: is_space_def)
  have s1: "dropWhile is_space (sg # b @ post) = sg # b @ post"
    using nsp by simp
  have cond: "b \<noteq> [] \<and> hd b \<noteq> CHR ''_'' \<and> last b \<noteq> CHR ''_'' \<and> \<not> double_underscore b"
    using b by (simp add: separated_digits_iff [OF chars])
  show ?thesis
    unfolding py_int_def Let_def s1
    using sg cond post py_int_body [OF b post] by auto
qed

lemma py_int_blanks:
  assumes pre: "list_all is_space pre" and nsp: "t \<noteq> []" "\<not> is_space (hd t)"
  shows "py_int (pre @ t) = (case py_int t of Inl x \<Rightarrow> Inl (ValueError (pre @ t)) | Inr n \<Rightarrow> Inr n)"
proof -
  have "dropWhile is_space (pre @ t) = dropWhile is_space t"
    using pre by (simp add: dropWhile_append2 list_all_iff)
  then show ?thesis
    by (simp add: py_int_def Let_def)
qed

lemma py_int_decomposed:
  assumes pre: "list_all is_space pre" and post: "list_all is_space post"
    and sg: "sg = [] \<or> sg = ''+'' \<or> sg = ''-''" and b: "separated_digits b"
  shows "py_int (pre @ sg @ b @ post) =
    (if max_str_digits < length (filter is_digit b) then Inl (ValueError (pre @ sg @ b @ post))
     else Inr ((if sg = ''-'' then - 1 else 1) * int (dec_value (filter is_digit b))))"
proof -
  from separated_digits_hd [OF b] is_digit_facts have hb: "b \<noteq> []" "\<not> is_space (hd b)"
    by auto
  from sg consider "sg = []" | "sg = ''+''" | "sg = ''-''" by blast
  then show ?thesis
  proof cases
    case 1
    have "py_int (pre @ b @ post) =
        (case py_int (b @ post) of Inl x \<Rightarrow> Inl (ValueError (pre @ b @ post)) | Inr n \<Rightarrow> Inr n)"
      using py_int_blanks [OF pre, of "b @ post"] hb by simp
    then show ?thesis
      using 1 by (simp add: py_int_tail [OF b post])
  next
    case 2
    have "py_int (pre @ CHR ''+'' # b @ post) =
        (case py_int (CHR ''+'' # b @ post) of
           Inl x \<Rightarrow> Inl (ValueError (pre @ CHR ''+'' # b @ post)) | Inr n \<Rightarrow> Inr n)"
      using py_int_blanks [OF pre, of "CHR ''+'' # b @ post"] by (simp add: is_space_def)
    then show ?thesis
      using 2 by (simp add: py_int_signed [OF b post])
  next
    case 3
    have "py_int (pre @ CHR ''-'' # b @ post) =
        (case py_int (CHR ''-'' # b @ post) of
           Inl x \<Rightarrow> Inl (ValueError (pre @ CHR ''-'' # b @ post)) | Inr n \<Rightarrow> Inr n)"
      using py_int_blanks [OF pre, of "CHR ''-'' # b @ post"] by (simp add: is_space_def)
    then show ?thesis
      using 3 by (simp add: py_int_signed [OF b post])
  qed
qed

lemma py_int_Inl: "py_int g = Inl e \<Longrightarrow> e = ValueError g"
  by (auto simp: py_int_def Let_def split: if_splits)

lemma py_int_Inr_literal:
  assumes "py_int s = Inr n"
  shows "int_literal s n"
proof -
  define pre where "pre = takeWhile is_space s"
  define s1 where "s1 = dropWhile is_space s"
  define sg where "sg = (if s1 \<noteq> [] \<and> (hd s1 = CHR ''+'' \<or> hd s1 = CHR ''-'') then [hd s1] else [])"
  define s2 where "s2 = (if s1 \<noteq> [] \<and> (hd s1 = CHR ''+'' \<or> hd s1 = CHR ''-'') then tl s1 else s1)"
  define b where "b = takeWhile (\<lambda>c. is_digit c \<or> c = CHR ''_'') s2"
  define post where "post = dropWhile (\<lambda>c. is_digit c \<or> c = CHR ''_'') s2"
  have s: "s = pre @ s1" by (simp add: pre_def s1_def)
  have s1: "s1 = sg @ s2" by (simp add: sg_def s2_def)
  have s2: "s2 = b @ post" by (simp add: b_def post_def)
  have chars: "\<forall>c\<in>set b. is_digit c \<or> c = CHR ''_''"
    unfolding b_def using set_takeWhileD by fastforce
  from assms have cond: "b \<noteq> [] \<and> hd b \<noteq> CHR ''_'' \<and> last b \<noteq> CHR ''_'' \<and> \<not> double_underscore b"
    and post: "list_all is_space post" and len: "length (filter is_digit b) \<le> max_str_digits"
    and n: "n = (if s1 \<noteq> [] \<and> hd s1 = CHR ''-'' then - 1 else 1) * int (dec_value (filter is_digit b))"
    unfolding py_int_def Let_def s1_def [symmetric] s2_def [symmetric] b_def [symmetric]
      post_def [symmetric]
    by (auto split: if_splits)
  have sep: "separated_digits b"
    using cond by (simp add: separated_digits_iff [OF chars])
  have pre: "list_all is_space pre"
    unfolding pre_def list_all_iff using set_takeWhileD by fastforce
  have sgs: "sg = [] \<or> sg = ''+'' \<or> sg = ''-''"
    by (auto simp: sg_def)
  have neg: "(s1 \<noteq> [] \<and> hd s1 = CHR ''-'') \<longleftrightarrow> sg = ''-''"
    by (auto simp: sg_def)
  have "s = pre @ sg @ b @ post" using s s1 s2 by simp
  moreover have "n = (if sg = ''-'' then - 1 else 1) * int (decimal (filter is_digit b))"
    using n neg by (simp add: dec_value_decimal)
  moreover have "length (filter is_digit b) \<le> 4300"
    using len by (simp add: max_str_digits_def)
  ultimately show ?thesis
    unfolding int_literal_def using pre post sgs sep by blast
qed

lemma py_int_iff: "py_int s = Inr n \<longleftrightarrow> int_literal s n"
proof
  assume "py_int s = Inr n"
  then show "int_literal s n" by (rule py_int_Inr_literal)
next
  assume "int_literal s n"
  then obtain pre sg b post where s: "s = pre @ sg @ b @ post"
    and pre: "list_all is_space pre" and post: "list_all is_space post"
    and sg: "sg = [] \<or> sg = ''+'' \<or> sg = ''-''" and b: "separated_digits b"
    and len: "length (filter is_digit b) \<le> 4300"
    and n: "n = (if sg = ''-'' then - 1 else 1) * int (decimal (filter is_digit b))"
    unfolding int_literal_def by blast
  show "py_int s = Inr n"
    unfolding s py_int_decomposed [OF pre post sg b]
    using len n by (simp add: max_str_digits_def dec_value_decimal)
qed

lemma split_from_nonempty: "split_from cur s \<noteq> []"
  by (induction s arbitrary: cur) auto

lemma join_dots_Cons: "gs \<noteq> [] \<Longrightarrow> join_dots (g # gs) = g @ CHR ''.'' # join_dots gs"
  by (cases gs) auto

lemma join_split_from: "join_dots (split_from cur s) = cur @ s"
  by (induction s arbitrary: cur) (auto simp: join_dots_Cons split_from_nonempty)

lemma split_from_nodot:
  "CHR ''.'' \<notin> set cur \<Longrightarrow> \<forall>g\<in>set (split_from cur s). CHR ''.'' \<notin> set g"
proof (induction s arbitrary: cur)
  case Nil
  then show ?case by simp
next
  case (Cons a s)
  show ?case
  proof (cases "a = CHR ''.''")
    case True
    have "\<forall>g\<in>set (split_from [] s). CHR ''.'' \<notin> set g"
      using Cons.IH [of "[]"] by simp
    with True Cons.prems show ?thesis by simp
  next
    case False
    then have "CHR ''.'' \<notin> set (cur @ [a])"
      using Cons.prems by simp
    from Cons.IH [OF this] False show ?thesis by simp
  qed
qed

lemma tuple_int_literals:
  "(\<forall>g\<in>set ps. \<exists>n. int_literal g n) \<Longrightarrow>
   \<exists>ns. tuple_int ps = Inr ns \<and> list_all2 int_literal ps ns"
proof (induction ps)
  case Nil
  then show ?case by simp
next
  case (Cons p ps)
  then obtain n where n: "int_literal p n" by auto
  from Cons obtain ns where ns: "tuple_int ps = Inr ns" "list_all2 int_literal ps ns" by auto
  from n have "py_int p = Inr n" by (simp add: py_int_iff)
  with ns n have "tuple_int (p # ps) = Inr (n # ns) \<and> list_all2 int_literal (p # ps) (n # ns)"
    by simp
  then show ?case by blast
qed

lemma tuple_int_no_literal:
  "\<not> (\<forall>g\<in>set ps. \<exists>n. int_literal g n) \<Longrightarrow>
   \<exists>g\<in>set ps. (\<nexists>n. int_literal g n) \<and> tuple_int ps = Inl (ValueError g)"
proof (induction ps)
  case Nil
  then show ?case by simp
next
  case (Cons p ps)
  show ?case
  proof (cases "py_int p")
    case (Inl x)
    then have "\<nexists>n. int_literal p n" by (auto simp: py_int_iff [symmetric])
    with Inl py_int_Inl [OF Inl] show ?thesis by simp
  next
    case (Inr n)
    then have "int_literal p n" by (simp add: py_int_iff)
    with Cons.prems have "\<not> (\<forall>g\<in>set ps. \<exists>n. int_literal g n)" by auto
    from Cons.IH [OF this] Inr show ?thesis by auto
  qed
qed

text \<open>
  Claim C7, as the code has it. \<open>parse_version\<close> drops one leading \<open>v\<close> or \<open>V\<close>, if
  there is one, and splits the rest at the dots: the pieces, joined with dots, give the
  rest back, and no piece holds a dot. A piece stands for an integer when it is, between
  blanks, an optional sign and digits that single underscores may separate, no more
  than 4300 digits. When every piece stands for an integer the result is the tuple of
  these integers, in order; otherwise \<open>ValueError\<close> is raised for a piece that stands
  for none. The three examples of the specification are instances.
\<close>

theorem parse_version_literals:
  "(let r = (if s \<noteq> [] \<and> (hd s = CHR ''v'' \<or> hd s = CHR ''V'') then tl s else s);
        segs = str_split r
    in segs \<noteq> [] \<and> join_dots segs = r \<and> (\<forall>g\<in>set segs. CHR ''.'' \<notin> set g)
       \<and> ((\<forall>g\<in>set segs. \<exists>n. int_literal g n) \<longrightarrow>
            (\<exists>ns. parse_version s = Inr ns \<and> list_all2 int_literal segs ns))
       \<and> (\<not> (\<forall>g\<in>set segs. \<exists>n. int_literal g n) \<longrightarrow>
            (\<exists>g\<in>set segs. (\<nexists>n. int_literal g n) \<and> parse_version s = Inl (ValueError g))))
   \<and> parse_version ''v0.0.10'' = Inr [0, 0, 10]
   \<and> parse_version ''2.1'' = Inr [2, 1]
   \<and> parse_version ''x.1'' = Inl (ValueError ''x'')"
proof -
  have ex: "parse_version ''v0.0.10'' = Inr [0, 0, 10]"
    "parse_version ''2.1'' = Inr [2, 1]"
    "parse_version ''x.1'' = Inl (ValueError ''x'')"
    by code_simp+
  define r where "r = (if s \<noteq> [] \<and> (hd s = CHR ''v'' \<or> hd s = CHR ''V'') then tl s else s)"
  define segs where "segs = str_split r"
  have pv: "parse_version s = tuple_int segs"
    by (simp add: parse_version_def Let_def r_def segs_def)
  have a: "segs \<noteq> []" "join_dots segs = r" "\<forall>g\<in>set segs. CHR ''.'' \<notin> set g"
    using split_from_nodot [of "[]" r]
    by (simp_all add: segs_def str_split_def split_from_nonempty join_split_from)
  have b: "(\<forall>g\<in>set segs. \<exists>n. int_literal g n) \<longrightarrow>
      (\<exists>ns. parse_version s = Inr ns \<and> list_all2 int_literal segs ns)"
    unfolding pv using tuple_int_literals [of segs] by blast
  have c: "\<not> (\<forall>g\<in>set segs. \<exists>n. int_literal g n) \<longrightarrow>
      (\<exists>g\<in>set segs. (\<nexists>n. int_literal g n) \<and> parse_version s = Inl (ValueError g))"
    unfolding pv using tuple_int_no_literal [of segs] by blast
  have "segs \<noteq> [] \<and> join_dots segs = r \<and> (\<forall>g\<in>set segs. CHR ''.'' \<notin> set g)
       \<and> ((\<forall>g\<in>set segs. \<exists>n. int_literal g n) \<longrightarrow>
            (\<exists>ns. parse_version s = Inr ns \<and> list_all2 int_literal segs ns))
       \<and> (\<not> (\<forall>g\<in>set segs. \<exists>n. int_literal g n) \<longrightarrow>
            (\<exists>g\<in>set segs. (\<nexists>n. int_literal g n) \<and> parse_version s = Inl (ValueError g)))"
    using a b c by (intro conjI)
  then have main:
    "let r = (if s \<noteq> [] \<and> (hd s = CHR ''v'' \<or> hd s = CHR ''V'') then tl s else s);
         segs = str_split r
     in segs \<noteq> [] \<and> join_dots segs = r \<and> (\<forall>g\<in>set segs. CHR ''.'' \<notin> set g)
       \<and> ((\<forall>g\<in>set segs. \<exists>n. int_literal g n) \<longrightarrow>
            (\<exists>ns. parse_version s = Inr ns \<and> list_all2 int_literal segs ns))
       \<and> (\<not> (\<forall>g\<in>set segs. \<exists>n. int_literal g n) \<longrightarrow>
            (\<exists>g\<in>set segs. (\<nexists>n. int_literal g n) \<and> parse_version s = Inl (ValueError g)))"
    unfolding Let_def segs_def r_def .
  show ?thesis
    by (simp only: main ex simp_thms)
qed

lemma int_literal_digits:
  assumes "ds \<noteq> []" and "list_all is_digit ds" and "length ds \<le> 4300"
  shows "int_literal ds (int (decimal ds))"
proof -
  have d: "\<forall>i<length ds. is_digit (ds ! i)"
    using assms(2) by (simp add: list_all_iff)
  then have "\<forall>i<length ds. ds ! i \<noteq> CHR ''_''"
    using is_digit_facts by blast
  with d assms(1) have sep: "separated_digits ds"
    by (simp add: separated_digits_def)
  have f: "filter is_digit ds = ds"
    using assms(2) by (simp add: list_all_iff)
  show ?thesis
    unfolding int_literal_def
    apply (rule exI [of _ "[]"])
    apply (rule exI [of _ "[]"])
    apply (rule exI [of _ ds])
    apply (rule exI [of _ "[]"])
    using sep f assms(3) by simp
qed

text \<open>The theorem at \<open>V3.11\<close>: both pieces stand for integers and the tuple is \<open>(3, 11)\<close>.\<close>

theorem parse_version_literals_witness:
  "parse_version ''V3.11'' = Inr [3, 11]"
proof -
  have segs: "str_split ''3.11'' = [''3'', ''11'']"
    by code_simp
  have p: "py_int ''3'' = Inr 3" "py_int ''11'' = Inr 11"
    by code_simp+
  then have lit: "int_literal ''3'' 3" "int_literal ''11'' 11"
    by (simp_all add: py_int_iff)
  then have all: "\<forall>g\<in>set [''3'', ''11'']. \<exists>n. int_literal g n"
    by auto
  from parse_version_literals [of "''V3.11''"] segs all
  obtain ns where ns: "parse_version ''V3.11'' = Inr ns" "list_all2 int_literal [''3'', ''11''] ns"
    by (auto simp: Let_def)
  from ns(2) obtain a b where ab: "ns = [a, b]" "int_literal ''3'' a" "int_literal ''11'' b"
    by (auto simp: list_all2_Cons1)
  with p have "a = 3" "b = 11"
    by (simp_all add: py_int_iff [symmetric])
  with ns(1) ab(1) show ?thesis by simp
qed

text \<open>
  Claim C7 as stated fails when numeric means made of digits: the pieces of
  \<open>" 1_0.-2 "\<close> hold a blank, an underscore and a sign, and the result is \<open>(10, -2)\<close>.
\<close>

theorem parse_version_counterexample:
  "parse_version '' 1_0.-2 '' = Inr [10, - 2]
   \<and> str_split '' 1_0.-2 '' = ['' 1_0'', ''-2 '']
   \<and> \<not> list_all is_digit '' 1_0'' \<and> \<not> list_all is_digit ''-2 ''"
  by code_simp

subsection \<open>Runs of digits\<close>

lemma runs_general:
  "map (\<lambda>i. takeWhile is_digit (drop i s))
     (filter (\<lambda>i. is_digit (s ! i) \<and> (if i = 0 then \<not> p else \<not> is_digit (s ! (i - 1)))) [0..<length s])
   = runs_aux p s"
proof (induction s arbitrary: p)
  case Nil
  then show ?case by simp
next
  case (Cons c cs)
  have upt: "[0..<length (c # cs)] = 0 # map Suc [0..<length cs]"
    by (simp only: length_Cons upt_conv_Cons [OF zero_less_Suc] map_Suc_upt)
  have tail: "map (\<lambda>i. takeWhile is_digit (drop i (c # cs)))
        (filter (\<lambda>i. is_digit ((c # cs) ! i) \<and> (if i = 0 then \<not> p else \<not> is_digit ((c # cs) ! (i - 1))))
           (map Suc [0..<length cs]))
      = runs_aux (is_digit c) cs"
    unfolding Cons.IH [of "is_digit c", symmetric]
    by (simp add: filter_map o_def nth_Cons' cong: filter_cong)
  show ?case
    unfolding upt using tail by simp
qed

lemma maximal_runs_aux: "maximal_digit_runs s = runs_aux False s"
proof -
  have "(\<lambda>i. is_digit (s ! i) \<and> (i = 0 \<or> \<not> is_digit (s ! (i - 1))))
      = (\<lambda>i. is_digit (s ! i) \<and> (if i = 0 then \<not> False else \<not> is_digit (s ! (i - 1))))"
    by (auto simp: fun_eq_iff)
  then show ?thesis
    unfolding maximal_digit_runs_def run_starts_def
    using runs_general [of s False] by simp
qed

lemma runs_aux_skip:
  "\<forall>c\<in>set n. \<not> is_digit c \<Longrightarrow> runs_aux False (n @ x) = runs_aux False x"
  by (induction n) auto

lemma runs_aux_True: "runs_aux True r = runs_aux False (dropWhile is_digit r)"
  by (induction r) auto

lemma findall_runs_aux: "findall_digits s = runs_aux False s"
proof (induction s rule: findall_digits.induct)
  case (1 s)
  show ?case
  proof (cases "dropWhile (\<lambda>c. \<not> is_digit c) s")
    case Nil
    then have "\<forall>c\<in>set s. \<not> is_digit c"
      by (simp add: dropWhile_eq_Nil_conv)
    from runs_aux_skip [OF this, of "[]"] have "runs_aux False s = []"
      by simp
    moreover have "findall_digits s = []"
      by (subst findall_digits.simps) (simp only: Nil list.case)
    ultimately show ?thesis by simp
  next
    case (Cons c r)
    have dig: "is_digit c"
      using hd_dropWhile [of "\<lambda>c. \<not> is_digit c" s] Cons by simp
    have s: "s = takeWhile (\<lambda>c. \<not> is_digit c) s @ c # r"
      using takeWhile_dropWhile_id [of "\<lambda>c. \<not> is_digit c" s] Cons by simp
    have "\<forall>x\<in>set (takeWhile (\<lambda>c. \<not> is_digit c) s). \<not> is_digit x"
      by (auto dest: set_takeWhileD)
    from runs_aux_skip [OF this, of "c # r"] s
    have "runs_aux False s = runs_aux False (c # r)" by simp
    also have "\<dots> = (c # takeWhile is_digit r) # runs_aux True r"
      using dig by simp
    also have "\<dots> = (c # takeWhile is_digit r) # findall_digits (dropWhile is_digit r)"
      using "1.IH" [OF Cons] by (simp add: runs_aux_True)
    finally show ?thesis
      using Cons by (simp add: findall_digits.simps [of s])
  qed
qed

lemma no_double_underscore: "CHR ''_'' \<notin> set ds \<Longrightarrow> \<not> double_underscore ds"
  by (induction ds rule: double_underscore.induct) auto

lemma runs_aux_digits: "\<forall>d\<in>set (runs_aux p s). d \<noteq> [] \<and> (\<forall>c\<in>set d. is_digit c)"
proof (induction s arbitrary: p)
  case Nil
  then show ?case by simp
next
  case (Cons c cs)
  have "\<forall>x\<in>set (takeWhile is_digit cs). is_digit x"
    using set_takeWhileD by fastforce
  then show ?case
    using Cons.IH by simp
qed

lemma py_int_run:
  assumes "d \<noteq> []" and "\<forall>c\<in>set d. is_digit c"
  shows "py_int d = (if 4300 < length d then Inl (ValueError d) else Inr (int (decimal d)))"
proof -
  have dg: "\<forall>i<length d. is_digit (d ! i)"
    using assms(2) by simp
  then have "\<forall>i<length d. d ! i \<noteq> CHR ''_''"
    using is_digit_facts by blast
  with dg assms(1) have sep: "separated_digits d"
    by (simp add: separated_digits_def)
  have f: "filter is_digit d = d"
    using assms(2) by simp
  from py_int_decomposed [of "[]" "[]" "[]" d, OF _ _ _ sep] show ?thesis
    by (simp add: f max_str_digits_def dec_value_decimal)
qed

lemma tuple_int_runs_ok:
  "\<forall>d\<in>set ds. d \<noteq> [] \<and> (\<forall>c\<in>set d. is_digit c) \<and> length d \<le> 4300 \<Longrightarrow>
   tuple_int ds = Inr (map (\<lambda>d. int (decimal d)) ds)"
  by (induction ds) (auto simp: py_int_run)

lemma tuple_int_runs_long:
  assumes "\<forall>d\<in>set ds. d \<noteq> [] \<and> (\<forall>c\<in>set d. is_digit c)"
    and "\<not> (\<forall>d\<in>set ds. length d \<le> 4300)"
  shows "\<exists>d\<in>set ds. 4300 < length d \<and> tuple_int ds = Inl (ValueError d)"
  using assms
proof (induction ds)
  case Nil
  then show ?case by simp
next
  case (Cons d ds)
  then have d: "d \<noteq> []" "\<forall>c\<in>set d. is_digit c" by simp_all
  show ?case
  proof (cases "4300 < length d")
    case True
    then show ?thesis by (simp add: py_int_run [OF d])
  next
    case False
    with Cons.prems have "\<forall>d\<in>set ds. d \<noteq> [] \<and> (\<forall>c\<in>set d. is_digit c)"
      and "\<not> (\<forall>d\<in>set ds. length d \<le> 4300)" by auto
    from Cons.IH [OF this] False show ?thesis
      by (auto simp: py_int_run [OF d])
  qed
qed

text \<open>
  Claim C8, as the code has it. When no maximal run of digits of the argument is longer
  than 4300 digits, \<open>parse_revision\<close> returns the decimal values of the runs, from left
  to right, and \<open>(0,)\<close> when there is no run, which is the case when the argument holds
  no digit. When a run is longer, \<open>ValueError\<close> is raised for such a run. The two
  examples of the specification are instances.
\<close>

theorem parse_revision_bounded:
  "((\<forall>d\<in>set (maximal_digit_runs s). length d \<le> 4300) \<longrightarrow>
      parse_revision s =
        Inr (if maximal_digit_runs s = [] then [0]
             else map (\<lambda>d. int (decimal d)) (maximal_digit_runs s)))
   \<and> (\<not> (\<forall>d\<in>set (maximal_digit_runs s). length d \<le> 4300) \<longrightarrow>
      (\<exists>d\<in>set (maximal_digit_runs s). 4300 < length d \<and> parse_revision s = Inl (ValueError d)))
   \<and> ((\<forall>c\<in>set s. \<not> is_digit c) \<longrightarrow> parse_revision s = Inr [0])
   \<and> parse_revision ''2025-04-14-4bit'' = Inr [2025, 4, 14, 4]
   \<and> parse_revision ''stable'' = Inr [0]"
proof -
  have fa: "findall_digits s = maximal_digit_runs s"
    by (simp add: findall_runs_aux maximal_runs_aux)
  have dig: "\<forall>d\<in>set (maximal_digit_runs s). d \<noteq> [] \<and> (\<forall>c\<in>set d. is_digit c)"
    using runs_aux_digits [of False s] by (simp add: maximal_runs_aux)
  have one: "parse_revision s =
        Inr (if maximal_digit_runs s = [] then [0]
             else map (\<lambda>d. int (decimal d)) (maximal_digit_runs s))"
    if "\<forall>d\<in>set (maximal_digit_runs s). length d \<le> 4300"
    using tuple_int_runs_ok [of "maximal_digit_runs s"] dig that
    by (simp add: parse_revision_def fa)
  have two: "\<exists>d\<in>set (maximal_digit_runs s). 4300 < length d \<and> parse_revision s = Inl (ValueError d)"
    if "\<not> (\<forall>d\<in>set (maximal_digit_runs s). length d \<le> 4300)"
  proof -
    from that have "maximal_digit_runs s \<noteq> []" by auto
    with tuple_int_runs_long [OF dig that] show ?thesis
      by (simp add: parse_revision_def fa)
  qed
  have three: "parse_revision s = Inr [0]" if "\<forall>c\<in>set s. \<not> is_digit c"
    using runs_aux_skip [OF that, of "[]"] by (simp add: parse_revision_def fa maximal_runs_aux)
  have e3: "parse_revision ''2025-04-14-4bit'' = Inr [2025, 4, 14, 4]"
    by code_simp
  have e4: "parse_revision ''stable'' = Inr [0]"
    by code_simp
  from one two three e3 e4 show ?thesis by blast
qed

text \<open>The theorem at a string with two runs and at a string without digits.\<close>

theorem parse_revision_bounded_witness:
  "parse_revision ''v12a007'' = Inr [12, 7] \<and> parse_revision ''--'' = Inr [0]"
proof -
  have runs: "maximal_digit_runs ''v12a007'' = [''12'', ''007'']"
    by code_simp
  have dec: "decimal ''12'' = 12" "decimal ''007'' = 7"
    by (simp_all add: decimal_def digit_value_def lessThan_Suc numeral_3_eq_3 numeral_2_eq_2)
  have "parse_revision ''v12a007'' = Inr [12, 7]"
    using parse_revision_bounded [of "''v12a007''", THEN conjunct1]
    by (simp add: runs dec)
  moreover have "\<forall>c\<in>set ''--''. \<not> is_digit c"
    by (simp add: is_digit_def)
  then have "parse_revision ''--'' = Inr [0]"
    using parse_revision_bounded [of "''--''", THEN conjunct2, THEN conjunct2, THEN conjunct1] by blast
  ultimately show ?thesis by simp
qed

lemma runs_of_digits:
  assumes "s \<noteq> []" and "\<forall>c\<in>set s. is_digit c"
  shows "maximal_digit_runs s = [s]"
proof -
  from assms obtain c cs where s: "s = c # cs" by (cases s) auto
  with assms(2) have c: "is_digit c" and cs: "\<forall>x\<in>set cs. is_digit x" by simp_all
  have tw: "takeWhile is_digit cs = cs" and dw: "dropWhile is_digit cs = []"
    using cs by simp_all
  have "runs_aux False s = (c # takeWhile is_digit cs) # runs_aux False (dropWhile is_digit cs)"
    using c by (simp add: s runs_aux_True)
  also have "\<dots> = [s]"
    unfolding tw dw by (simp add: s)
  finally show ?thesis
    by (simp add: maximal_runs_aux)
qed

text \<open>
  Claim C8 as stated fails: a string of 4301 nines is one maximal run of digits, and
  \<open>parse_revision\<close> raises \<open>ValueError\<close> on it.
\<close>

theorem parse_revision_counterexample:
  "maximal_digit_runs (replicate 4301 CHR ''9'') = [replicate 4301 CHR ''9'']
   \<and> parse_revision (replicate 4301 CHR ''9'') = Inl (ValueError (replicate 4301 CHR ''9''))"
proof -
  let ?s = "replicate 4301 CHR ''9''"
  have ne: "?s \<noteq> []" by simp
  have dg: "\<forall>c\<in>set ?s. is_digit c" by (simp add: is_digit_def)
  have runs: "maximal_digit_runs ?s = [?s]"
    by (rule runs_of_digits [OF ne dg])
  have "py_int ?s = Inl (ValueError ?s)"
    using py_int_run [OF ne dg] by simp
  then have "parse_revision ?s = Inl (ValueError ?s)"
    using runs by (simp add: parse_revision_def findall_runs_aux maximal_runs_aux [symmetric])
  with runs show ?thesis by simp
qed

section \<open>Properties of the life cycle\<close>

lemmas ex_defs =
  linux_env_def fresh_world_def fresh_fs_def installed_world_def release_1_0_def
  release_1_1_def sound_archive_def

subsection \<open>Checking for an update\<close>

lemma check_for_update_Inr:
  assumes "check_for_update e upd w = (Inr st, w1)"
  shows "\<exists>m. (if upd then manifest_update e (current_cli w) else Inr (current_cli w)) = Inr m
          \<and> w1 = w\<lparr>current_cli := m\<rparr>
          \<and> st = \<lparr>ood = (active_cli w \<noteq> version m), status_version = version m\<rparr>"
proof (cases "if upd then manifest_update e (current_cli w) else Inr (current_cli w)")
  case (Inl x)
  with assms show ?thesis
    by (simp add: check_for_update_def)
next
  case (Inr m)
  with assms have "w1 = w\<lparr>current_cli := m\<rparr>"
    "st = \<lparr>ood = (active_cli w \<noteq> version m), status_version = version m\<rparr>"
    by (simp_all add: check_for_update_def Let_def split: if_splits)
  with Inr show ?thesis by blast
qed

text \<open>
  Claim C1, as the code has it. The version field of the status is the version string of
  the manifest after the optional refresh, and the out-of-date flag is set exactly when
  the recorded \<open>active_cli\<close> is a different string. The strings are compared for
  equality; they are not parsed and not ordered. The check changes nothing but the
  manifest, and nothing at all without a refresh; it returns a status whenever the
  refresh does not raise.
\<close>

theorem check_for_update_compares_strings:
  "(check_for_update e upd w = (Inr st, w1) \<longrightarrow>
      ood st = (active_cli w \<noteq> version (current_cli w1))
      \<and> status_version st = version (current_cli w1)
      \<and> w1 = w\<lparr>current_cli := current_cli w1\<rparr>
      \<and> (\<not> upd \<longrightarrow> w1 = w))
   \<and> (\<not> upd \<or> (\<exists>m. manifest_update e (current_cli w) = Inr m) \<longrightarrow>
      (\<exists>st w1. check_for_update e upd w = (Inr st, w1)))"
proof (intro conjI impI)
  assume a: "check_for_update e upd w = (Inr st, w1)"
  from check_for_update_Inr [OF a] obtain m where
    m: "(if upd then manifest_update e (current_cli w) else Inr (current_cli w)) = Inr m"
    and w1: "w1 = w\<lparr>current_cli := m\<rparr>"
    and st: "st = \<lparr>ood = (active_cli w \<noteq> version m), status_version = version m\<rparr>"
    by blast
  show "ood st = (active_cli w \<noteq> version (current_cli w1))"
    by (simp add: w1 st)
  show "status_version st = version (current_cli w1)"
    by (simp add: w1 st)
  show "w1 = w\<lparr>current_cli := current_cli w1\<rparr>"
    by (simp add: w1)
  show "w1 = w" if "\<not> upd"
    using that m by (simp add: w1)
next
  assume "\<not> upd \<or> (\<exists>m. manifest_update e (current_cli w) = Inr m)"
  then show "\<exists>st w1. check_for_update e upd w = (Inr st, w1)"
    by (auto simp: check_for_update_def Let_def)
qed

text \<open>The theorem on the fresh machine, whose manifest is refreshed to version 1.1.0.\<close>

theorem check_for_update_compares_strings_witness:
  "fst (check_for_update linux_env True fresh_world) = Inr \<lparr>ood = True, status_version = ''1.1.0''\<rparr>"
proof -
  have "manifest_update linux_env (current_cli fresh_world) = Inr release_1_1"
    by (simp add: linux_env_def)
  then obtain st w1 where r: "check_for_update linux_env True fresh_world = (Inr st, w1)"
    using check_for_update_compares_strings [of linux_env True fresh_world] by blast
  have m: "current_cli w1 = release_1_1"
    using r by (auto simp: check_for_update_def Let_def linux_env_def split: if_splits)
  from check_for_update_compares_strings [of linux_env True fresh_world st w1] r
  have "ood st = (active_cli fresh_world \<noteq> version (current_cli w1))"
    "status_version st = version (current_cli w1)"
    by blast+
  then have "st = \<lparr>ood = True, status_version = ''1.1.0''\<rparr>"
    unfolding m by (simp add: fresh_world_def release_1_1_def)
  with r show ?thesis by simp
qed

text \<open>
  Claim C1 as stated fails: with \<open>active_cli\<close> at 2.0.0 and the manifest at 1.0.0 the
  flag is set, although 2.0.0 is not ordered before 1.0.0.
\<close>

theorem check_for_update_counterexample:
  "fst (check_for_update linux_env False (fresh_world\<lparr>active_cli := ''2.0.0''\<rparr>))
     = Inr \<lparr>ood = True, status_version = ''1.0.0''\<rparr>
   \<and> version_before ''2.0.0'' ''1.0.0'' = Inr False"
  by code_simp

subsection \<open>The preconditions of the wrapper installation\<close>



subsection \<open>Updating\<close>

text \<open>
  Claim C4. When the check made by \<open>update\<close> reports that the CLI is not out of date,
  \<open>update\<close> returns at once: the state it leaves is the one the check left, which
  differs from the state before in the refreshed manifest only. No download has been
  requested and the file system, the permission bits and the processes are as before.
\<close>

theorem update_current_is_noop:
  "check_for_update e True w = (Inr st, w1) \<Longrightarrow> \<not> ood st \<Longrightarrow>
   update e w = (Inr (), w1) \<and> w1 = w\<lparr>current_cli := current_cli w1\<rparr>
   \<and> fs w1 = fs w \<and> modes w1 = modes w \<and> fetched w1 = fetched w \<and> spawned w1 = spawned w"
  by (auto simp: update_def check_for_update_def Let_def split: sum.splits if_splits)

text \<open>The theorem on the installed machine, when the manifest still names version 1.0.0.\<close>

theorem update_current_is_noop_witness:
  "update (linux_env\<lparr>manifest_update := (\<lambda>m. Inr release_1_0)\<rparr>) installed_world = (Inr (), installed_world)"
proof -
  let ?e = "linux_env\<lparr>manifest_update := (\<lambda>m. Inr release_1_0)\<rparr>"
  have c: "check_for_update ?e True installed_world
      = (Inr \<lparr>ood = False, status_version = ''1.0.0''\<rparr>, installed_world)"
    by (simp add: check_for_update_def Let_def ex_defs)
  show ?thesis
    using update_current_is_noop [OF c] by simp
qed

subsection \<open>Booting\<close>

text \<open>
  Claim C9. \<open>boot\<close> raises an exception exactly when the installation that precedes the
  launch raises it. When the installation returns and the launch raises, on any
  platform, \<open>boot\<close> returns normally and has logged the failure as an error. On a
  platform other than macOS and Linux the launch raises the \<open>ValueError\<close> of line 60.
\<close>

theorem boot_swallows_launch_failure:
  "(\<forall>x. fst (boot e w) = Inl x \<longleftrightarrow> fst (boot_install e w) = Inl x)
   \<and> (\<forall>p w1 x. boot_install e w = (Inr p, w1) \<and> fst (launch e w1) = Inl x \<longrightarrow>
        fst (boot e w) = Inr ()
        \<and> errors (snd (boot e w)) = errors (snd (launch e w1)) @ [''Failed to launch CLI in new window''])
   \<and> (PLATFORM e = Other \<longrightarrow> (\<exists>m. fst (launch e w') = Inl (ValueError m)))"
  by (auto simp: boot_def launch_def split: sum.splits prod.splits)

text \<open>
  The theorem on the installed machine, on a platform that is neither macOS nor Linux:
  the wrapper is installed, the launch raises, \<open>boot\<close> returns and the log holds the
  failure.
\<close>

theorem boot_swallows_launch_failure_witness:
  "fst (boot (linux_env\<lparr>PLATFORM := Other\<rparr>) installed_world) = Inr ()
   \<and> errors (snd (boot (linux_env\<lparr>PLATFORM := Other\<rparr>) installed_world))
       = [''Failed to launch CLI in new window'']"
proof -
  let ?e = "linux_env\<lparr>PLATFORM := Other\<rparr>"
  let ?w1 = "snd (boot_install ?e installed_world)"
  have a: "fst (boot_install ?e installed_world) = Inr [''home'', ''u'', ''.local'', ''bin'', ''moondream'']"
    by code_simp
  then have b: "boot_install ?e installed_world = (Inr [''home'', ''u'', ''.local'', ''bin'', ''moondream''], ?w1)"
    by (metis prod.collapse)
  have c: "launch ?e ?w1 = (Inl (ValueError
      ''Moondream-cli only supports macOS and Ubuntu, therefore it cannot be launched on other''), ?w1)"
    by (simp add: launch_def linux_env_def)
  have d: "errors ?w1 = []"
    by code_simp
  from boot_swallows_launch_failure [of ?e installed_world, THEN conjunct2, THEN conjunct1,
      rule_format, of _ ?w1] b c d
  show ?thesis by simp
qed

subsection \<open>Links\<close>

lemma follow_no_link:
  "follow k f p = Some q \<Longrightarrow> f q \<noteq> Some (Symlink t)"
  by (induction k arbitrary: p) (auto split: option.splits node.splits)

lemma follow_links_no_link:
  "follow_links f p = Some q \<Longrightarrow> f q \<noteq> Some (Symlink t)"
  unfolding follow_links_def by (rule follow_no_link)

lemma follow_plain:
  "\<forall>t. f p \<noteq> Some (Symlink t) \<Longrightarrow> follow k f p = Some p"
  by (cases k) (auto split: option.splits node.splits)

lemma follow_links_plain:
  "\<forall>t. f p \<noteq> Some (Symlink t) \<Longrightarrow> follow_links f p = Some p"
  unfolding follow_links_def by (rule follow_plain)

lemma path_exists_not_None:
  "path_exists f p \<Longrightarrow> f p \<noteq> None"
proof
  assume a: "path_exists f p" and n: "f p = None"
  from n have "follow_links f p = Some p" by (simp add: follow_links_plain)
  with a n show False by (simp add: path_exists_def)
qed

lemma path_exists_plain:
  "\<forall>t. f p \<noteq> Some (Symlink t) \<Longrightarrow> path_exists f p = (f p \<noteq> None)"
  by (simp add: path_exists_def follow_links_plain)

lemma file_content_exists:
  "file_content f p = Some c \<Longrightarrow> path_exists f p"
  by (auto simp: file_content_def path_exists_def split: option.splits node.splits)

lemma keepsD:
  "keeps f g \<Longrightarrow> f p = Some Dir \<Longrightarrow> g p = Some Dir"
  "keeps f g \<Longrightarrow> f p = Some (Symlink t) \<Longrightarrow> g p = Some (Symlink t)"
  "keeps f g \<Longrightarrow> f p = Some (File c) \<Longrightarrow> \<exists>c'. g p = Some (File c')"
  unfolding keeps_def by (drule spec [of _ p], simp)+

lemma keeps_refl: "keeps f f"
  by (auto simp: keeps_def split: option.splits node.splits)

lemma keeps_trans: "keeps f g \<Longrightarrow> keeps g h \<Longrightarrow> keeps f h"
  unfolding keeps_def
proof (intro allI)
  fix p
  assume a: "\<forall>p. case f p of None \<Rightarrow> True | Some (File c) \<Rightarrow> \<exists>c'. g p = Some (File c') | Some n \<Rightarrow> g p = Some n"
    and b: "\<forall>p. case g p of None \<Rightarrow> True | Some (File c) \<Rightarrow> \<exists>c'. h p = Some (File c') | Some n \<Rightarrow> h p = Some n"
  from a [rule_format, of p] b [rule_format, of p]
  show "case f p of None \<Rightarrow> True | Some (File c) \<Rightarrow> \<exists>c'. h p = Some (File c') | Some n \<Rightarrow> h p = Some n"
    by (auto split: option.splits node.splits)
qed

lemma keeps_not_None: "keeps f g \<Longrightarrow> f p \<noteq> None \<Longrightarrow> g p \<noteq> None"
  unfolding keeps_def by (drule spec [of _ p]) (auto split: option.splits node.splits)

lemma keeps_Dir_back: "keeps f g \<Longrightarrow> f p \<noteq> None \<Longrightarrow> g p = Some Dir \<Longrightarrow> f p = Some Dir"
  unfolding keeps_def by (drule spec [of _ p]) (auto split: option.splits node.splits)

lemma keeps_follow:
  "keeps f g \<Longrightarrow> follow k f p = Some q \<Longrightarrow> f q \<noteq> None \<Longrightarrow> follow k g p = Some q"
proof (induction k arbitrary: p)
  case 0
  then show ?case
    by (cases "f p"; cases "the (f p)") (auto dest: keepsD)
next
  case (Suc k)
  show ?case
  proof (cases "f p")
    case None
    with Suc.prems show ?thesis by simp
  next
    case (Some n)
    show ?thesis
    proof (cases n)
      case (File c)
      with Some Suc.prems keepsD(3) [of f g p c] show ?thesis by auto
    next
      case Dir
      with Some Suc.prems keepsD(1) [of f g p] show ?thesis by auto
    next
      case (Symlink t)
      with Some Suc.prems keepsD(2) [of f g p t] Suc.IH [of t] show ?thesis by auto
    qed
  qed
qed

lemma keeps_follow_links:
  "keeps f g \<Longrightarrow> follow_links f p = Some q \<Longrightarrow> f q \<noteq> None \<Longrightarrow> follow_links g p = Some q"
  unfolding follow_links_def by (rule keeps_follow)

lemma keeps_path_exists:
  assumes "keeps f g" "path_exists f p" shows "path_exists g p"
proof -
  from assms(2) obtain q where q: "follow_links f p = Some q" "f q \<noteq> None"
    by (auto simp: path_exists_def split: option.splits)
  from keeps_follow_links [OF assms(1) q] keeps_not_None [OF assms(1) q(2)]
  show ?thesis by (simp add: path_exists_def)
qed

lemma keeps_isdir:
  assumes "keeps f g" "isdir f p" shows "isdir g p"
proof -
  from assms(2) obtain q where q: "follow_links f p = Some q" "f q = Some Dir"
    by (auto simp: isdir_def split: option.splits)
  from keeps_follow_links [OF assms(1) q(1)] q(2) keepsD(1) [OF assms(1) q(2)]
  show ?thesis by (simp add: isdir_def)
qed

lemma keeps_isfile:
  assumes "keeps f g" "isfile f p" shows "isfile g p"
proof -
  from assms(2) obtain q c where q: "follow_links f p = Some q" "f q = Some (File c)"
    by (auto simp: isfile_def file_content_def split: option.splits node.splits)
  from keeps_follow_links [OF assms(1) q(1)] q(2) keepsD(3) [OF assms(1) q(2)]
  show ?thesis by (auto simp: isfile_def file_content_def)
qed

lemma write_file_Inr:
  "write_file f p c = Inr g \<Longrightarrow>
   \<exists>q. follow_links f p = Some q \<and> g = f(q \<mapsto> File c) \<and> (f q = None \<or> (\<exists>c'. f q = Some (File c')))"
  by (auto simp: write_file_def dest: follow_links_no_link split: option.splits node.splits)

lemma write_file_keeps:
  assumes "write_file f p c = Inr g" shows "keeps f g"
proof -
  from write_file_Inr [OF assms] obtain q where
    g: "g = f(q \<mapsto> File c)" and q: "f q = None \<or> (\<exists>c'. f q = Some (File c'))" by blast
  show ?thesis
    unfolding keeps_def g using q by (auto split: option.splits node.splits)
qed

lemma write_file_result:
  assumes "write_file f p c = Inr g"
  shows "file_content g p = Some c"
proof -
  from write_file_Inr [OF assms] obtain q where
    fl: "follow_links f p = Some q" and g: "g = f(q \<mapsto> File c)"
    and q: "f q = None \<or> (\<exists>c'. f q = Some (File c'))" by blast
  have "follow_links g p = Some q"
  proof (cases "f q = None")
    case False
    from keeps_follow_links [OF write_file_keeps [OF assms] fl False] show ?thesis .
  next
    case True
    have "\<And>k r. follow k f r = Some q \<Longrightarrow> follow k g r = Some q"
    proof -
      fix k r show "follow k f r = Some q \<Longrightarrow> follow k g r = Some q"
      proof (induction k arbitrary: r)
        case 0
        then show ?case using True by (auto simp: g split: option.splits node.splits)
      next
        case (Suc k)
        then show ?case using True by (auto simp: g split: option.splits node.splits)
      qed
    qed
    then show ?thesis using fl by (simp add: follow_links_def)
  qed
  then show ?thesis by (simp add: file_content_def g)
qed

lemma mkdir_parents_keeps:
  "mkdir_parents f p = Inr g \<Longrightarrow> keeps f g"
  by (auto simp: mkdir_parents_def keeps_def split: if_splits option.splits node.splits)

lemma extract_member_keeps:
  assumes "extract_member f t c = Inr g" shows "keeps f g"
proof -
  from assms obtain f0 where m: "mkdir_parents f (butlast t) = Inr f0"
    and wr: "write_file f0 t c = Inr g"
    by (auto simp: extract_member_def split: sum.splits)
  from keeps_trans [OF mkdir_parents_keeps [OF m] write_file_keeps [OF wr]] show ?thesis .
qed

lemma extract_members_keeps:
  "keeps f (snd (extract_members f base ms))"
proof (induction ms arbitrary: f)
  case Nil
  show ?case by (simp add: keeps_refl)
next
  case (Cons m ms)
  show ?case
  proof (cases "extract_member f (base @ fst m) (snd m)")
    case (Inl x)
    then show ?thesis by (simp add: keeps_refl)
  next
    case (Inr f1)
    from keeps_trans [OF extract_member_keeps [OF Inr] Cons.IH [of f1]] Inr
    show ?thesis by simp
  qed
qed

lemma extractall_keeps:
  "extractall e t base w = (r, w1) \<Longrightarrow> keeps (fs w) (fs w1)"
  using extract_members_keeps [of "fs w" base]
  by (auto simp: extractall_def Let_def keeps_refl split: option.splits sum.splits)

lemma extractall_Inr:
  "extractall e t base w = (Inr u, w1) \<Longrightarrow> path_exists (fs w) t"
  by (auto simp: extractall_def Let_def dest: file_content_exists split: option.splits)

lemma download_file_keeps:
  "download_file e u p w = (r, w1) \<Longrightarrow> keeps (fs w) (fs w1)"
  by (auto simp: download_file_def Let_def keeps_refl dest: write_file_keeps
      split: fetch.splits option.splits sum.splits)

lemma download_file_Inr:
  "download_file e u p w = (Inr (), w1) \<Longrightarrow> isfile (fs w1) p"
  by (auto simp: download_file_def Let_def isfile_def dest!: write_file_result
      split: fetch.splits option.splits sum.splits)

lemma download_file_Dir:
  assumes "download_file e u p w = (r, w1)" "fs w1 p = Some Dir" shows "fs w p = Some Dir"
proof -
  have "\<And>g c. write_file (fs w) p c = Inr g \<Longrightarrow> g p = Some Dir \<Longrightarrow> fs w p = Some Dir"
    by (auto dest!: write_file_Inr split: if_splits)
  with assms show ?thesis
    by (auto simp: download_file_def Let_def split: fetch.splits option.splits sum.splits)
qed

lemma extractall_Dir:
  assumes "extractall e t base w = (r, w1)" "fs w1 p = Some Dir" "path_exists (fs w) p"
  shows "fs w p = Some Dir"
  using keeps_Dir_back [OF extractall_keeps [OF assms(1)] path_exists_not_None [OF assms(3)] assms(2)] .

subsection \<open>Fetching and unpacking\<close>

lemma os_remove_Inr:
  "os_remove e f p = Inr g \<Longrightarrow> g = f(p := None)"
  by (auto simp: os_remove_def split: option.splits node.splits)


lemma removed_not_exists: "\<not> path_exists (f(p := None)) p"
  by (simp add: path_exists_plain)

lemma cli_not_tar: "cli_path e \<noteq> tar_path e"
  by (simp add: cli_path_def tar_path_def)

lemma remove_existing_tar:
  "fs (remove_existing e w) (tar_path e) = fs w (tar_path e)"
  by (auto simp: remove_existing_def rmtree_def tar_path_def cli_dir_def
      split: option.splits node.splits sum.splits)

lemma extractall_Dir_back:
  assumes "extractall e t base w = (r, w1)" "fs w1 t = Some Dir"
  shows "fs w t = Some Dir"
proof (cases "file_content (fs w) t")
  case None
  with assms show ?thesis by (simp add: extractall_def)
next
  case (Some body)
  from extractall_Dir [OF assms file_content_exists [OF Some]] show ?thesis .
qed

text \<open>The handler of lines 178 to 182, after the body has raised.\<close>

lemma dae_handler:
  assumes body: "download_and_extract_body e u (remove_existing e w) = (Inl x, wb)"
    and run: "download_and_extract_cli e u w = (r, w')"
  shows "(r = Inr False \<and> \<not> path_exists (fs w') (tar_path e)
            \<and> (fs w' = fs wb \<or> fs w' = (fs wb)(tar_path e := None))
            \<and> (path_exists (fs wb) (tar_path e) \<longrightarrow> (\<exists>g. os_remove e (fs wb) (tar_path e) = Inr g)))
       \<or> (\<exists>x'. r = Inl x' \<and> path_exists (fs w') (tar_path e)
            \<and> os_remove e (fs w') (tar_path e) = Inl x' \<and> fs w' = fs wb)"
proof (cases "path_exists (fs wb) (tar_path e)")
  case False
  with body run show ?thesis
    by (auto simp: download_and_extract_cli_def Let_def)
next
  case True
  show ?thesis
  proof (cases "os_remove e (fs wb) (tar_path e)")
    case (Inl x')
    with True body run show ?thesis
      by (auto simp: download_and_extract_cli_def Let_def)
  next
    case (Inr g)
    from os_remove_Inr [OF Inr] have g: "g = (fs wb)(tar_path e := None)" .
    have "\<not> path_exists g (tar_path e)"
      unfolding g by (rule removed_not_exists)
    with True body run Inr g show ?thesis
      by (auto simp: download_and_extract_cli_def Let_def)
  qed
qed

text \<open>Every outcome of \<open>_download_and_extract_cli\<close>.\<close>

lemma dae_cases:
  assumes run: "download_and_extract_cli e u w = (r, w')"
  shows "(r = Inr True \<and> download_ok e u w \<and> extraction_ok e u w
            \<and> isfile (fs w') (cli_path e) \<and> fs w' (tar_path e) = None)
       \<or> (r = Inr False \<and> \<not> path_exists (fs w') (tar_path e)
            \<and> \<not> (download_ok e u w \<and> extraction_ok e u w \<and> isfile (fs w') (cli_path e)))
       \<or> (\<exists>x. r = Inl x \<and> path_exists (fs w') (tar_path e)
            \<and> os_remove e (fs w') (tar_path e) = Inl x
            \<and> (fs w' (tar_path e) = Some Dir \<longrightarrow> fs w (tar_path e) = Some Dir))"
proof -
  define w0 where "w0 = remove_existing e w"
  obtain r1 w1 where d: "download_file e u (tar_path e) w0 = (r1, w1)"
    by (cases "download_file e u (tar_path e) w0") auto
  have dir1: "fs w1 (tar_path e) = Some Dir \<longrightarrow> fs w (tar_path e) = Some Dir"
    using download_file_Dir [OF d] by (auto simp: w0_def remove_existing_tar)
  show ?thesis
  proof (cases r1)
    case (Inl x)
    have nok: "\<not> download_ok e u w"
      using d Inl by (simp add: download_ok_def w0_def)
    have body: "download_and_extract_body e u (remove_existing e w) = (Inl x, w1)"
      using d Inl by (simp add: download_and_extract_body_def w0_def)
    from dae_handler [OF body run] nok dir1 show ?thesis by auto
  next
    case (Inr u1)
    then have d1: "download_file e u (tar_path e) w0 = (Inr (), w1)"
      using d by simp
    have ok: "download_ok e u w"
      using d1 by (simp add: download_ok_def w0_def)
    obtain r2 w2 where x: "extractall e (tar_path e) (base_dir e) w1 = (r2, w2)"
      by (cases "extractall e (tar_path e) (base_dir e) w1") auto
    have dir2: "fs w2 (tar_path e) = Some Dir \<longrightarrow> fs w (tar_path e) = Some Dir"
      using extractall_Dir_back [OF x] dir1 by blast
    show ?thesis
    proof (cases r2)
      case (Inl x2)
      have nok: "\<not> extraction_ok e u w"
        using d1 x Inl by (simp add: extraction_ok_def w0_def)
      have body: "download_and_extract_body e u (remove_existing e w) = (Inl x2, w2)"
        using d1 x Inl by (simp add: download_and_extract_body_def w0_def)
      from dae_handler [OF body run] nok dir2 show ?thesis by auto
    next
      case (Inr u2)
      have eok: "extraction_ok e u w"
        using d1 x Inr by (simp add: extraction_ok_def w0_def)
      from x Inr have "path_exists (fs w1) (tar_path e)"
        by (auto dest: extractall_Inr)
      from keeps_path_exists [OF extractall_keeps [OF x] this]
      have ex2: "path_exists (fs w2) (tar_path e)" .
      show ?thesis
      proof (cases "os_remove e (fs w2) (tar_path e)")
        case (Inl x3)
        have body: "download_and_extract_body e u (remove_existing e w) = (Inl x3, w2)"
          using d1 x Inr Inl by (simp add: download_and_extract_body_def w0_def)
        from dae_handler [OF body run] ex2 Inl dir2 show ?thesis by auto
      next
        case rm: (Inr g)
        from os_remove_Inr [OF rm] have g: "g = (fs w2)(tar_path e := None)" .
        have body: "download_and_extract_body e u (remove_existing e w)
            = (Inr (isfile g (cli_path e)), w2\<lparr>fs := g\<rparr>)"
          using d1 x Inr rm by (simp add: download_and_extract_body_def w0_def)
        with run have r: "r = Inr (isfile g (cli_path e))" and w': "w' = w2\<lparr>fs := g\<rparr>"
          by (auto simp: download_and_extract_cli_def)
        have "\<not> path_exists (fs w') (tar_path e)" "fs w' (tar_path e) = None"
          using removed_not_exists [of "fs w2" "tar_path e"] by (simp_all add: w' g)
        with r w' ok eok show ?thesis by (cases "isfile g (cli_path e)") auto
      qed
    qed
  qed
qed










text \<open>
  Claim C5, as the code has it. When \<open>_download_and_extract_cli\<close> returns, it returns
  true exactly when the download succeeded, the extraction succeeded and the entry point
  is a regular file in the state the call leaves; so it returns false after a failed
  download, after a failed extraction, also when the members unpacked before the
  failure brought the entry point, and when no entry point is there. When it does not
  return, it raises what \<open>os.remove\<close> raises for the archive.
\<close>

theorem download_and_extract_result:
  "(download_and_extract_cli e u w = (Inr b, w') \<longrightarrow>
      (b \<longleftrightarrow> download_ok e u w \<and> extraction_ok e u w \<and> isfile (fs w') (cli_path e)))
   \<and> (download_and_extract_cli e u w = (Inl x, w') \<longrightarrow>
      os_remove e (fs w') (tar_path e) = Inl x)"
proof (intro conjI impI)
  assume "download_and_extract_cli e u w = (Inr b, w')"
  from dae_cases [OF this]
  show "b \<longleftrightarrow> download_ok e u w \<and> extraction_ok e u w \<and> isfile (fs w') (cli_path e)"
    by auto
next
  assume "download_and_extract_cli e u w = (Inl x, w')"
  from dae_cases [OF this] show "os_remove e (fs w') (tar_path e) = Inl x"
    by auto
qed

text \<open>
  The theorem on the fresh machine, where the call returns true, download and
  extraction have succeeded and the entry point is a file; and on the installed machine
  when the system refuses to remove the archive, where the call raises that refusal.
\<close>

theorem download_and_extract_result_witness:
  "download_ok linux_env (url release_1_1) fresh_world
   \<and> extraction_ok linux_env (url release_1_1) fresh_world
   \<and> isfile (fs (snd (download_and_extract_cli linux_env (url release_1_1) fresh_world)))
       (cli_path linux_env)
   \<and> os_remove refusing_env
       (fs (snd (download_and_extract_cli refusing_env (url release_1_1) installed_world)))
       (tar_path refusing_env) = Inl (OSError ''operation not permitted'')"
proof -
  let ?u = "url release_1_1"
  let ?w = "snd (download_and_extract_cli linux_env ?u fresh_world)"
  let ?v = "snd (download_and_extract_cli refusing_env ?u installed_world)"
  have "fst (download_and_extract_cli linux_env ?u fresh_world) = Inr True"
    by code_simp
  then have a: "download_and_extract_cli linux_env ?u fresh_world = (Inr True, ?w)"
    by (simp add: prod_eq_iff)
  have "fst (download_and_extract_cli refusing_env ?u installed_world)
      = Inl (OSError ''operation not permitted'')"
    by code_simp
  then have b: "download_and_extract_cli refusing_env ?u installed_world
      = (Inl (OSError ''operation not permitted''), ?v)"
    by (simp add: prod_eq_iff)
  from download_and_extract_result [of linux_env ?u fresh_world True ?w] a
    download_and_extract_result [of refusing_env ?u installed_world _ ?v
      "OSError ''operation not permitted''"] b
  show ?thesis by blast
qed

text \<open>
  Claim C5 as stated fails: when the archive ends early, behind the member that is the
  entry point, the entry point exists after download and extraction, and the call
  returns false.
\<close>

theorem entry_point_without_success:
  "fst (download_and_extract_cli truncating_env (url release_1_1) fresh_world) = Inr False
   \<and> isfile (fs (snd (download_and_extract_cli truncating_env (url release_1_1) fresh_world)))
       (cli_path truncating_env)"
  by code_simp







end
